theory Spec2Isabelle
  imports Complex_Main
begin

section \<open>Scalars: \<open>real_t\<close>\<close>

text \<open>
  The solver computes in \<open>real_t\<close> (a C++ \<open>double\<close>). The embedding keeps the finite
  values exact (no rounding, no overflow: the properties below are stated "in exact
  arithmetic") and adds the three non-finite values of IEEE 754, because the code divides
  without testing the divisor: a division by zero does not trap, it yields an infinity
  or a NaN and the computation goes on. The sign of a zero is not modelled: a zero
  divisor counts as \<open>+0\<close>.
\<close>

datatype real_t = Fin real | PInf | MInf | NaN

fun fneg :: "real_t \<Rightarrow> real_t" where
  "fneg (Fin a) = Fin (- a)"
| "fneg PInf = MInf"
| "fneg MInf = PInf"
| "fneg NaN = NaN"

fun fadd :: "real_t \<Rightarrow> real_t \<Rightarrow> real_t" where
  "fadd NaN _ = NaN"
| "fadd _ NaN = NaN"
| "fadd (Fin a) (Fin b) = Fin (a + b)"
| "fadd PInf MInf = NaN"
| "fadd MInf PInf = NaN"
| "fadd PInf _ = PInf"
| "fadd _ PInf = PInf"
| "fadd MInf _ = MInf"
| "fadd _ MInf = MInf"

definition fsub :: "real_t \<Rightarrow> real_t \<Rightarrow> real_t" where
  "fsub a b = fadd a (fneg b)"

text \<open>The infinity with the sign of a nonzero real.\<close>

definition signed_inf :: "real \<Rightarrow> real_t" where
  "signed_inf a = (if 0 < a then PInf else MInf)"

fun fmul :: "real_t \<Rightarrow> real_t \<Rightarrow> real_t" where
  "fmul NaN _ = NaN"
| "fmul _ NaN = NaN"
| "fmul (Fin a) (Fin b) = Fin (a * b)"
| "fmul (Fin a) PInf = (if a = 0 then NaN else signed_inf a)"
| "fmul (Fin a) MInf = (if a = 0 then NaN else signed_inf (- a))"
| "fmul PInf (Fin b) = (if b = 0 then NaN else signed_inf b)"
| "fmul MInf (Fin b) = (if b = 0 then NaN else signed_inf (- b))"
| "fmul PInf PInf = PInf"
| "fmul MInf MInf = PInf"
| "fmul PInf MInf = MInf"
| "fmul MInf PInf = MInf"

fun fdiv :: "real_t \<Rightarrow> real_t \<Rightarrow> real_t" where
  "fdiv NaN _ = NaN"
| "fdiv _ NaN = NaN"
| "fdiv (Fin a) (Fin b) =
     (if b \<noteq> 0 then Fin (a / b) else if a = 0 then NaN else signed_inf a)"
| "fdiv (Fin a) PInf = Fin 0"
| "fdiv (Fin a) MInf = Fin 0"
| "fdiv PInf (Fin b) = (if 0 \<le> b then PInf else MInf)"
| "fdiv MInf (Fin b) = (if 0 \<le> b then MInf else PInf)"
| "fdiv PInf PInf = NaN"
| "fdiv PInf MInf = NaN"
| "fdiv MInf PInf = NaN"
| "fdiv MInf MInf = NaN"

fun fsqrt :: "real_t \<Rightarrow> real_t" where
  "fsqrt (Fin a) = (if a < 0 then NaN else Fin (sqrt a))"
| "fsqrt PInf = PInf"
| "fsqrt MInf = NaN"
| "fsqrt NaN = NaN"

text \<open>Comparisons: every comparison with a NaN is false.\<close>

fun fless :: "real_t \<Rightarrow> real_t \<Rightarrow> bool" where
  "fless NaN _ = False"
| "fless _ NaN = False"
| "fless (Fin a) (Fin b) = (a < b)"
| "fless MInf MInf = False"
| "fless MInf _ = True"
| "fless _ MInf = False"
| "fless PInf _ = False"
| "fless _ PInf = True"

definition feq :: "real_t \<Rightarrow> real_t \<Rightarrow> bool" where
  "feq a b = (a \<noteq> NaN \<and> a = b)"

definition fle :: "real_t \<Rightarrow> real_t \<Rightarrow> bool" where
  "fle a b = (fless a b \<or> feq a b)"

section \<open>Vectors and operators\<close>

text \<open>
  \<open>VectorType\<close> is a one-column matrix of \<open>real_t\<close>: a list of its coefficients. The
  componentwise operations are those of Eigen on operands of one size; the solver is
  called with an operator, a right-hand side and an initial guess of one dimension
  (the caller's precondition), and the model checks no sizes.
\<close>

type_synonym VectorType = "real_t list"

definition vadd :: "VectorType \<Rightarrow> VectorType \<Rightarrow> VectorType" where
  "vadd u v = map2 fadd u v"

definition vsub :: "VectorType \<Rightarrow> VectorType \<Rightarrow> VectorType" where
  "vsub u v = map2 fsub u v"

definition vscale :: "real_t \<Rightarrow> VectorType \<Rightarrow> VectorType" where
  "vscale a v = map (fmul a) v"

text \<open>The dot product, accumulated from the left, starting at zero.\<close>

definition vdot :: "VectorType \<Rightarrow> VectorType \<Rightarrow> real_t" where
  "vdot u v = foldl fadd (Fin 0) (map2 fmul u v)"

definition vnorm :: "VectorType \<Rightarrow> real_t" where
  "vnorm v = fsqrt (vdot v v)"

text \<open>
  \<open>resize\<close> of a vector: a no-op when the size is already right; otherwise Eigen
  reallocates and leaves the coefficients uninitialised. The solver overwrites them
  before it reads them; the model fills them with zeros.
\<close>

definition resize :: "nat \<Rightarrow> VectorType \<Rightarrow> VectorType" where
  "resize n v = (if length v = n then v else replicate n (Fin 0))"

text \<open>
  A \<open>gsLinearOperator\<close>: the capability \<open>apply\<close> with the dimensions of the operator.
  Both the system matrix and the preconditioner are such operators.
\<close>

record gsLinearOperator =
  op_rows :: nat
  op_cols :: nat
  op_apply :: "VectorType \<Rightarrow> VectorType"

section \<open>The solver's state\<close>

text \<open>
  The members of \<open>gsConjugateGradient\<close> (those of its base class included) that
  \<open>initIteration\<close>, \<open>step\<close> and the spectral queries read or write. The iterate \<open>x\<close> is
  not a member: the caller passes it by reference, and the model passes it in and out.
\<close>

record gsConjugateGradient =
  m_mat :: gsLinearOperator
  m_precond :: gsLinearOperator
  m_max_iters :: nat
  m_tol :: real_t
  m_calcEigenvals :: bool
  m_num_iter :: nat
  m_rhs_norm :: real_t
  m_error :: real_t
  m_res :: VectorType
  m_update :: VectorType
  m_tmp :: VectorType
  m_abs_new :: real_t
  m_delta :: "real_t list"
  m_gamma :: "real_t list"

text \<open>
  Modelled from the spec: \<open>gsIterativeSolver::initIteration\<close> (the base class is not
  among the sources). It computes \<open>rhsNorm = ||rhs||\<close>; if that is zero it sets
  \<open>x = 0\<close> and reports that the iteration is finished (converged); otherwise the
  method-specific initialiser goes on.
\<close>

definition Base_initIteration ::
  "VectorType \<Rightarrow> VectorType \<Rightarrow> gsConjugateGradient \<Rightarrow> bool \<times> VectorType \<times> gsConjugateGradient" where
  "Base_initIteration rhs x s =
     (let s1 = s\<lparr>m_rhs_norm := vnorm rhs\<rparr>
      in if feq (Fin 0) (m_rhs_norm s1)
         then (True, replicate (length rhs) (Fin 0), s1)
         else (False, x, s1))"

section \<open>The conjugate gradient method\<close>

text \<open>
  \<open>gsConjugateGradient::initIteration\<close>. The result is the returned flag (true: the
  iteration is finished), the iterate and the solver after the call.
\<close>

definition initIteration ::
  "VectorType \<Rightarrow> VectorType \<Rightarrow> gsConjugateGradient \<Rightarrow> bool \<times> VectorType \<times> gsConjugateGradient" where
  "initIteration rhs x s =
     (let s1 = (if m_calcEigenvals s then s\<lparr>m_delta := [Fin 0], m_gamma := []\<rparr> else s);
          (fin, x1, s2) = Base_initIteration rhs x s1
      in if fin then (True, x1, s2)
         else
           let n = op_cols (m_mat s2);
               s3 = s2\<lparr>m_tmp := resize n (m_tmp s2), m_update := resize n (m_update s2)\<rparr>;
               s4 = s3\<lparr>m_tmp := op_apply (m_mat s3) x1\<rparr>;
               s5 = s4\<lparr>m_res := vsub rhs (m_tmp s4)\<rparr>;
               s6 = s5\<lparr>m_error := fdiv (vnorm (m_res s5)) (m_rhs_norm s5)\<rparr>
           in if fless (m_error s6) (m_tol s6) then (True, x1, s6)
              else
                let s7 = s6\<lparr>m_update := op_apply (m_precond s6) (m_res s6)\<rparr>;
                    s8 = s7\<lparr>m_abs_new := vdot (m_res s7) (m_update s7)\<rparr>
                in (False, x1, s8))"

text \<open>
  \<open>gsConjugateGradient::step\<close>. \<open>m_delta.back()\<close> on an empty \<open>m_delta\<close> is undefined
  behaviour in C++: the model returns \<open>None\<close> there. Everything else returns the flag
  (true: converged), the iterate and the solver after the step.
\<close>

definition step ::
  "VectorType \<Rightarrow> gsConjugateGradient \<Rightarrow> (bool \<times> VectorType \<times> gsConjugateGradient) option" where
  "step x s =
     (let s1 = s\<lparr>m_tmp := op_apply (m_mat s) (m_update s)\<rparr>;
          alpha = fdiv (m_abs_new s1) (vdot (m_update s1) (m_tmp s1))
      in if m_calcEigenvals s1 \<and> m_delta s1 = [] then None
         else
           let s2 = (if m_calcEigenvals s1
                     then s1\<lparr>m_delta := butlast (m_delta s1)
                                  @ [fadd (last (m_delta s1)) (fdiv (Fin 1) alpha)]\<rparr>
                     else s1);
               x1 = vadd x (vscale alpha (m_update s2));
               s3 = s2\<lparr>m_res := vsub (m_res s2) (vscale alpha (m_tmp s2))\<rparr>;
               s4 = s3\<lparr>m_error := fdiv (vnorm (m_res s3)) (m_rhs_norm s3)\<rparr>
           in if fless (m_error s4) (m_tol s4) then Some (True, x1, s4)
              else
                let s5 = s4\<lparr>m_tmp := op_apply (m_precond s4) (m_res s4)\<rparr>;
                    abs_old = m_abs_new s5;
                    s6 = s5\<lparr>m_abs_new := vdot (m_res s5) (m_tmp s5)\<rparr>;
                    beta = fdiv (m_abs_new s6) abs_old;
                    s7 = s6\<lparr>m_update := vadd (m_tmp s6) (vscale beta (m_update s6))\<rparr>;
                    s8 = (if m_calcEigenvals s7
                          then s7\<lparr>m_gamma := m_gamma s7 @ [fdiv (fneg (fsqrt beta)) alpha],
                                  m_delta := m_delta s7 @ [fdiv beta alpha]\<rparr>
                          else s7)
                in Some (False, x1, s8))"

section \<open>The solve loop\<close>

text \<open>
  The states of the solver base, as the specification names them.
\<close>

datatype solver_state = Initializing | Iterating | Converged | Exhausted | Breakdown

text \<open>
  Modelled from the spec: \<open>gsIterativeSolver::solve\<close> (not among the sources). It drives
  \<open>initIteration\<close>, then invokes \<open>step\<close> while the iteration count is below
  \<open>maxIterations\<close> and the state is \<open>Iterating\<close>, incrementing the counter after each
  step; it ends \<open>Converged\<close> when the method reports convergence and \<open>Exhausted\<close>
  when the cap is reached. The first argument of \<open>solve_loop\<close> is the number of
  iterations left below the cap. The method of the sources reports a \<open>bool\<close> only, so
  the loop has no transition into \<open>Breakdown\<close>. The result is the terminal state, the
  iterate and the solver (with the iteration count and the final relative residual).
\<close>

fun solve_loop ::
  "nat \<Rightarrow> VectorType \<Rightarrow> gsConjugateGradient
     \<Rightarrow> (solver_state \<times> VectorType \<times> gsConjugateGradient) option" where
  "solve_loop 0 x s = Some (Exhausted, x, s)"
| "solve_loop (Suc left) x s =
     (case step x s of
        None \<Rightarrow> None
      | Some (conv, x', s') \<Rightarrow>
          let s'' = s'\<lparr>m_num_iter := m_num_iter s' + 1\<rparr>
          in if conv then Some (Converged, x', s'') else solve_loop left x' s'')"

definition solve ::
  "VectorType \<Rightarrow> VectorType \<Rightarrow> gsConjugateGradient
     \<Rightarrow> (solver_state \<times> VectorType \<times> gsConjugateGradient) option" where
  "solve rhs x s =
     (let (fin, x1, s1) = initIteration rhs x (s\<lparr>m_num_iter := 0\<rparr>)
      in if fin then Some (Converged, x1, s1)
         else solve_loop (m_max_iters s1) x1 s1)"

section \<open>Spectral queries\<close>

text \<open>
  \<open>gsLanczosMatrix\<close> (the tridiagonal matrix of the recorded coefficients, with its
  methods \<open>maxEigenvalue\<close>, \<open>minEigenvalue\<close> and \<open>matrixForm\<close>) and Eigen's self-adjoint
  eigensolver are not among the sources: the queries take them as parameters, each a
  function of the \<open>gamma\<close> and \<open>delta\<close> sequences the matrix is constructed from.
  A query returns the diagnostics it writes to \<open>gsWarn\<close> with its value. The matrix and
  the eigensolver are modelled from the specification further below.
\<close>

definition condition_number_warning :: string where
  "condition_number_warning = ''Condition number needs eigenvalues set setCalcEigenvalues(true) and call solve with an arbitrary right hand side''"

definition eigenvalues_warning :: string where
  "eigenvalues_warning = ''Eigenvalues were not computed, set setCalcEigenvalues(true) and call solve with an arbitrary right hand side''"

definition getConditionNumber ::
  "(real_t list \<Rightarrow> real_t list \<Rightarrow> real_t) \<Rightarrow> (real_t list \<Rightarrow> real_t list \<Rightarrow> real_t)
     \<Rightarrow> gsConjugateGradient \<Rightarrow> string list \<times> real_t" where
  "getConditionNumber maxEigenvalue minEigenvalue s =
     (if m_delta s = []
      then ([condition_number_warning], Fin (- 1))
      else ([], fdiv (maxEigenvalue (m_gamma s) (m_delta s))
                     (minEigenvalue (m_gamma s) (m_delta s))))"

definition getEigenvalues ::
  "(real_t list \<Rightarrow> real_t list \<Rightarrow> 'mat) \<Rightarrow> ('mat \<Rightarrow> real_t list)
     \<Rightarrow> gsConjugateGradient \<Rightarrow> string list \<times> real_t list" where
  "getEigenvalues matrixForm eigenvalues s =
     (if m_delta s = []
      then ([eigenvalues_warning], [])
      else ([], eigenvalues (matrixForm (m_gamma s) (m_delta s))))"

section \<open>Fixtures for concrete runs\<close>

text \<open>
  Concrete operators and a freshly constructed solver, for the closed instances of the
  theorems below: a dense matrix as an operator (rows applied by the dot product), the
  identity operator, and a solver whose work vectors and coefficient trace are empty.
\<close>

definition gsMatrixOp :: "real_t list list \<Rightarrow> gsLinearOperator" where
  "gsMatrixOp M = \<lparr>op_rows = length M, op_cols = (case M of [] \<Rightarrow> 0 | r # _ \<Rightarrow> length r),
      op_apply = (\<lambda>v. map (\<lambda>row. vdot row v) M)\<rparr>"

definition gsIdentityOp :: "nat \<Rightarrow> gsLinearOperator" where
  "gsIdentityOp n = \<lparr>op_rows = n, op_cols = n, op_apply = (\<lambda>v. v)\<rparr>"

definition new_solver :: "gsLinearOperator \<Rightarrow> gsLinearOperator \<Rightarrow> nat \<Rightarrow> real_t \<Rightarrow> bool \<Rightarrow> gsConjugateGradient" where
  "new_solver A M k tol calc = \<lparr>m_mat = A, m_precond = M, m_max_iters = k, m_tol = tol, m_calcEigenvals = calc,
     m_num_iter = 0, m_rhs_norm = Fin 0, m_error = Fin 0, m_res = [], m_update = [], m_tmp = [],
     m_abs_new = Fin 0, m_delta = [], m_gamma = []\<rparr>"

definition diag14 :: gsLinearOperator where
  "diag14 = gsMatrixOp [[Fin 1, Fin 0], [Fin 0, Fin 4]]"

definition demo_solver :: "bool \<Rightarrow> gsConjugateGradient" where
  "demo_solver track = new_solver diag14 (gsIdentityOp 2) 10 (Fin (1 / 10)) track"

text \<open>The solver as \<open>initIteration\<close> leaves it.\<close>

definition after_init :: "VectorType \<Rightarrow> VectorType \<Rightarrow> gsConjugateGradient \<Rightarrow> gsConjugateGradient" where
  "after_init rhs x s = snd (snd (initIteration rhs x s))"

text \<open>The invariant of the coefficient trace while tracking is enabled.\<close>

definition trace_ok :: "gsConjugateGradient \<Rightarrow> bool" where
  "trace_ok s = (m_calcEigenvals s \<and> length (m_delta s) = length (m_gamma s) + 1)"

text \<open>
  The breakdown fixture: a singular operator, for which the first search direction has
  a zero inner product with its image.
\<close>

definition singular_op :: gsLinearOperator where
  "singular_op = gsMatrixOp [[Fin 1, Fin 0], [Fin 0, Fin 0]]"

definition breakdown_solver :: gsConjugateGradient where
  "breakdown_solver = new_solver singular_op (gsIdentityOp 2) 2 (Fin (1 / 10)) False"

text \<open>Ascending order of a sequence of \<open>real_t\<close>.\<close>

definition ascending :: "real_t list \<Rightarrow> bool" where
  "ascending es = sorted_wrt fle es"

section \<open>The recurrence without preconditioning\<close>

text \<open>
  The reference for the comparison with the identity preconditioner, written from the
  specification's words: the same recurrence with no preconditioner applied, the search
  direction being taken directly from the residual (\<open>update = r\<close>, \<open>absNew = r\<cdot>r\<close>, and
  \<open>update = r + beta update\<close>).
\<close>

definition initIteration_unpreconditioned ::
  "VectorType \<Rightarrow> VectorType \<Rightarrow> gsConjugateGradient \<Rightarrow> bool \<times> VectorType \<times> gsConjugateGradient" where
  "initIteration_unpreconditioned rhs x s =
     (let s1 = (if m_calcEigenvals s then s\<lparr>m_delta := [Fin 0], m_gamma := []\<rparr> else s);
          (fin, x1, s2) = Base_initIteration rhs x s1
      in if fin then (True, x1, s2)
         else
           let n = op_cols (m_mat s2);
               s3 = s2\<lparr>m_tmp := resize n (m_tmp s2), m_update := resize n (m_update s2)\<rparr>;
               s4 = s3\<lparr>m_tmp := op_apply (m_mat s3) x1\<rparr>;
               s5 = s4\<lparr>m_res := vsub rhs (m_tmp s4)\<rparr>;
               s6 = s5\<lparr>m_error := fdiv (vnorm (m_res s5)) (m_rhs_norm s5)\<rparr>
           in if fless (m_error s6) (m_tol s6) then (True, x1, s6)
              else
                let s7 = s6\<lparr>m_update := m_res s6\<rparr>;
                    s8 = s7\<lparr>m_abs_new := vdot (m_res s7) (m_res s7)\<rparr>
                in (False, x1, s8))"

definition step_unpreconditioned ::
  "VectorType \<Rightarrow> gsConjugateGradient \<Rightarrow> (bool \<times> VectorType \<times> gsConjugateGradient) option" where
  "step_unpreconditioned x s =
     (let s1 = s\<lparr>m_tmp := op_apply (m_mat s) (m_update s)\<rparr>;
          alpha = fdiv (m_abs_new s1) (vdot (m_update s1) (m_tmp s1))
      in if m_calcEigenvals s1 \<and> m_delta s1 = [] then None
         else
           let s2 = (if m_calcEigenvals s1
                     then s1\<lparr>m_delta := butlast (m_delta s1)
                                  @ [fadd (last (m_delta s1)) (fdiv (Fin 1) alpha)]\<rparr>
                     else s1);
               x1 = vadd x (vscale alpha (m_update s2));
               s3 = s2\<lparr>m_res := vsub (m_res s2) (vscale alpha (m_tmp s2))\<rparr>;
               s4 = s3\<lparr>m_error := fdiv (vnorm (m_res s3)) (m_rhs_norm s3)\<rparr>
           in if fless (m_error s4) (m_tol s4) then Some (True, x1, s4)
              else
                let abs_old = m_abs_new s4;
                    s6 = s4\<lparr>m_abs_new := vdot (m_res s4) (m_res s4)\<rparr>;
                    beta = fdiv (m_abs_new s6) abs_old;
                    s7 = s6\<lparr>m_update := vadd (m_res s6) (vscale beta (m_update s6))\<rparr>;
                    s8 = (if m_calcEigenvals s7
                          then s7\<lparr>m_gamma := m_gamma s7 @ [fdiv (fneg (fsqrt beta)) alpha],
                                  m_delta := m_delta s7 @ [fdiv beta alpha]\<rparr>
                          else s7)
                in Some (False, x1, s8))"

text \<open>
  The iterate sequence \<open>x\<^sub>0, x\<^sub>1, \<dots>\<close> of an initialiser and a step function: the iterate
  after the initialiser, then the iterate after each step, until convergence is reported
  or \<open>k\<close> steps are done.
\<close>

fun iterates_from ::
  "(VectorType \<Rightarrow> gsConjugateGradient \<Rightarrow> (bool \<times> VectorType \<times> gsConjugateGradient) option)
     \<Rightarrow> nat \<Rightarrow> VectorType \<Rightarrow> gsConjugateGradient \<Rightarrow> VectorType list" where
  "iterates_from stp 0 x s = [x]"
| "iterates_from stp (Suc k) x s =
     x # (case stp x s of
            None \<Rightarrow> []
          | Some (conv, x', s') \<Rightarrow> if conv then [x'] else iterates_from stp k x' s')"

definition iterate_sequence ::
  "(VectorType \<Rightarrow> VectorType \<Rightarrow> gsConjugateGradient \<Rightarrow> bool \<times> VectorType \<times> gsConjugateGradient)
     \<Rightarrow> (VectorType \<Rightarrow> gsConjugateGradient \<Rightarrow> (bool \<times> VectorType \<times> gsConjugateGradient) option)
     \<Rightarrow> nat \<Rightarrow> VectorType \<Rightarrow> VectorType \<Rightarrow> gsConjugateGradient \<Rightarrow> VectorType list" where
  "iterate_sequence ini stp k rhs x s =
     (case ini rhs x s of (fin, x1, s1) \<Rightarrow> if fin then [x1] else iterates_from stp k x1 s1)"

text \<open>Two solvers that agree on every member but the scratch vector \<open>m_tmp\<close>.\<close>

definition same_but_tmp :: "gsConjugateGradient \<Rightarrow> gsConjugateGradient \<Rightarrow> bool" where
  "same_but_tmp s t = (s\<lparr>m_tmp := []\<rparr> = t\<lparr>m_tmp := []\<rparr>)"

section \<open>Exact arithmetic\<close>

text \<open>
  The properties of the method "in exact arithmetic" are proved on real vectors and
  carried over to the solver: on finite values, and as long as no divisor is zero, the
  operations of \<open>real_t\<close> are those of the reals. Real vectors are lists of reals, with
  the componentwise operations and the inner product.
\<close>

definition rdot :: "real list \<Rightarrow> real list \<Rightarrow> real" where
  "rdot u v = sum_list (map2 (*) u v)"

definition radd :: "real list \<Rightarrow> real list \<Rightarrow> real list" where
  "radd u v = map2 (+) u v"

definition rsub :: "real list \<Rightarrow> real list \<Rightarrow> real list" where
  "rsub u v = map2 (-) u v"

definition rscale :: "real \<Rightarrow> real list \<Rightarrow> real list" where
  "rscale c v = map ((*) c) v"

text \<open>
  A symmetric positive definite operator of dimension \<open>n\<close> on real vectors: it keeps the
  dimension, is linear, is symmetric for the inner product, and \<open>u\<cdot>Au\<close> is positive for
  every nonzero \<open>u\<close>.
\<close>

definition spd :: "nat \<Rightarrow> (real list \<Rightarrow> real list) \<Rightarrow> bool" where
  "spd n A \<longleftrightarrow>
     (\<forall>u. length u = n \<longrightarrow> length (A u) = n)
   \<and> (\<forall>u v. length u = n \<longrightarrow> length v = n \<longrightarrow> A (radd u v) = radd (A u) (A v))
   \<and> (\<forall>c u. length u = n \<longrightarrow> A (rscale c u) = rscale c (A u))
   \<and> (\<forall>u v. length u = n \<longrightarrow> length v = n \<longrightarrow> rdot (A u) v = rdot u (A v))
   \<and> (\<forall>u. length u = n \<longrightarrow> u \<noteq> replicate n 0 \<longrightarrow> 0 < rdot u (A u))"

text \<open>
  An operator of the solver acts on finite vectors as the real operator \<open>A'\<close> does; it is
  symmetric positive definite when it acts as such a real operator.
\<close>

definition real_operator :: "nat \<Rightarrow> gsLinearOperator \<Rightarrow> (real list \<Rightarrow> real list) \<Rightarrow> bool" where
  "real_operator n A A' \<longleftrightarrow> (\<forall>u. length u = n \<longrightarrow> op_apply A (map Fin u) = map Fin (A' u))"

definition SPD_operator :: "nat \<Rightarrow> gsLinearOperator \<Rightarrow> bool" where
  "SPD_operator n A \<longleftrightarrow> (\<exists>A'. real_operator n A A' \<and> spd n A')"

text \<open>
  The recurrence of \<open>initIteration\<close> and \<open>step\<close> on real vectors, without the
  convergence test: the iterate, the residual, the search direction and \<open>absNew\<close> after
  \<open>k\<close> steps.
\<close>

record exact_state =
  ex_x :: "real list"
  ex_r :: "real list"
  ex_p :: "real list"
  ex_g :: real

definition exact_init ::
  "(real list \<Rightarrow> real list) \<Rightarrow> (real list \<Rightarrow> real list) \<Rightarrow> real list \<Rightarrow> real list \<Rightarrow> exact_state" where
  "exact_init A M b x =
     (let r = rsub b (A x); p = M r
      in \<lparr>ex_x = x, ex_r = r, ex_p = p, ex_g = rdot r p\<rparr>)"

definition exact_step ::
  "(real list \<Rightarrow> real list) \<Rightarrow> (real list \<Rightarrow> real list) \<Rightarrow> exact_state \<Rightarrow> exact_state" where
  "exact_step A M s =
     (let q = A (ex_p s);
          alpha = ex_g s / rdot (ex_p s) q;
          x' = radd (ex_x s) (rscale alpha (ex_p s));
          r' = rsub (ex_r s) (rscale alpha q);
          z = M r';
          g' = rdot r' z;
          beta = g' / ex_g s;
          p' = radd z (rscale beta (ex_p s))
      in \<lparr>ex_x = x', ex_r = r', ex_p = p', ex_g = g'\<rparr>)"

primrec exact_iter ::
  "(real list \<Rightarrow> real list) \<Rightarrow> (real list \<Rightarrow> real list) \<Rightarrow> real list \<Rightarrow> real list \<Rightarrow> nat \<Rightarrow> exact_state" where
  "exact_iter A M b x 0 = exact_init A M b x"
| "exact_iter A M b x (Suc k) = exact_step A M (exact_iter A M b x k)"

text \<open>
  The solver holds the state \<open>e\<close> of the exact recurrence, and is set up for the real
  operators \<open>A'\<close> and \<open>M'\<close>, the norm \<open>rho\<close> of the right-hand side and the tolerance \<open>t\<close>.
\<close>

definition exact_view :: "gsConjugateGradient \<Rightarrow> VectorType \<Rightarrow> exact_state \<Rightarrow> bool" where
  "exact_view s x e \<longleftrightarrow>
     x = map Fin (ex_x e) \<and> m_res s = map Fin (ex_r e) \<and> m_update s = map Fin (ex_p e)
   \<and> m_abs_new s = Fin (ex_g e)"

definition cg_ready ::
  "nat \<Rightarrow> (real list \<Rightarrow> real list) \<Rightarrow> (real list \<Rightarrow> real list) \<Rightarrow> real \<Rightarrow> real
     \<Rightarrow> gsConjugateGradient \<Rightarrow> bool" where
  "cg_ready n A' M' rho t s \<longleftrightarrow>
     real_operator n (m_mat s) A' \<and> real_operator n (m_precond s) M'
   \<and> m_rhs_norm s = Fin rho \<and> m_tol s = Fin t
   \<and> (m_calcEigenvals s \<longrightarrow> m_delta s \<noteq> [])"

text \<open>
  The step length and the residual that a step computes from the solver it is given.
\<close>

definition step_alpha :: "gsConjugateGradient \<Rightarrow> real_t" where
  "step_alpha s = fdiv (m_abs_new s) (vdot (m_update s) (op_apply (m_mat s) (m_update s)))"

definition step_residual :: "gsConjugateGradient \<Rightarrow> VectorType" where
  "step_residual s = vsub (m_res s) (vscale (step_alpha s) (op_apply (m_mat s) (m_update s)))"

text \<open>
  The invariant of the recurrence up to step \<open>k\<close>: \<open>absNew\<close> and \<open>update\<cdot>A update\<close> are
  positive, \<open>r\<cdot>update = absNew\<close>, each residual is orthogonal to the earlier directions
  and to the earlier preconditioned residuals, and each direction is conjugate to the
  earlier ones.
\<close>

definition cg_orth ::
  "(real list \<Rightarrow> real list) \<Rightarrow> (real list \<Rightarrow> real list) \<Rightarrow> real list \<Rightarrow> real list \<Rightarrow> nat \<Rightarrow> bool" where
  "cg_orth A M b x k \<longleftrightarrow>
     (\<forall>j\<le>k. 0 < ex_g (exact_iter A M b x j)
        \<and> 0 < rdot (ex_p (exact_iter A M b x j)) (A (ex_p (exact_iter A M b x j)))
        \<and> rdot (ex_r (exact_iter A M b x j)) (ex_p (exact_iter A M b x j))
            = ex_g (exact_iter A M b x j))
   \<and> (\<forall>j\<le>k. \<forall>i<j.
          rdot (ex_r (exact_iter A M b x j)) (ex_p (exact_iter A M b x i)) = 0
        \<and> rdot (ex_p (exact_iter A M b x j)) (A (ex_p (exact_iter A M b x i))) = 0
        \<and> rdot (ex_r (exact_iter A M b x j)) (M (ex_r (exact_iter A M b x i))) = 0)"

text \<open>
  The energy \<open>x\<cdot>Ax / 2 - b\<cdot>x\<close> of an iterate (it differs from half the squared \<open>A\<close>-norm
  of the error by a constant), on real vectors and as the solver's arithmetic computes
  it; and the relation "the energy of \<open>y'\<close> is not above that of \<open>y\<close>".
\<close>

definition energy :: "(real list \<Rightarrow> real list) \<Rightarrow> real list \<Rightarrow> real list \<Rightarrow> real" where
  "energy A b y = rdot y (A y) / 2 - rdot b y"

definition venergy :: "gsLinearOperator \<Rightarrow> VectorType \<Rightarrow> VectorType \<Rightarrow> real_t" where
  "venergy A b y = fsub (fdiv (vdot y (op_apply A y)) (Fin 2)) (vdot b y)"

definition energy_not_above :: "gsLinearOperator \<Rightarrow> VectorType \<Rightarrow> VectorType \<Rightarrow> VectorType \<Rightarrow> bool" where
  "energy_not_above A b y y' = fle (venergy A b y') (venergy A b y)"

text \<open>
  More fixtures: an ill-conditioned diagonal system, a solver capped at one iteration,
  and a solver with a singular preconditioner.
\<close>

definition stiff_op :: gsLinearOperator where
  "stiff_op = gsMatrixOp [[Fin 1, Fin 0], [Fin 0, Fin 100]]"

definition stiff_solver :: gsConjugateGradient where
  "stiff_solver = new_solver stiff_op (gsIdentityOp 2) 10 (Fin (1 / 10)) False"

definition capped_solver :: gsConjugateGradient where
  "capped_solver = new_solver diag14 (gsIdentityOp 2) 1 (Fin (1 / 10)) False"

definition singular_precond_solver :: gsConjugateGradient where
  "singular_precond_solver = new_solver diag14 singular_op 2 (Fin (1 / 10)) False"

section \<open>The tridiagonal matrix of the trace and its eigenvalues\<close>

text \<open>
  Modelled from the spec: \<open>gsLanczosMatrix::matrixForm\<close> (the class is not among the
  sources). It builds the symmetric tridiagonal matrix \<open>T\<close> with the diagonal entries
  from \<open>delta\<close> and the off-diagonal entries from \<open>gamma\<close>; its size is \<open>len(delta)\<close>,
  which is \<open>len(gamma) + 1\<close> under the trace invariant. The matrix is the list of its
  rows; \<open>tridiagonal\<close> takes the zero of the entries first.
\<close>

definition tridiagonal :: "'a \<Rightarrow> 'a list \<Rightarrow> 'a list \<Rightarrow> 'a list list" where
  "tridiagonal z g d =
     map (\<lambda>i. map (\<lambda>j. if i = j then d ! i
                       else if j = Suc i \<and> i < length g then g ! i
                       else if i = Suc j \<and> j < length g then g ! j
                       else z)
                 [0..<length d])
         [0..<length d]"

definition lanczos_matrixForm :: "real_t list \<Rightarrow> real_t list \<Rightarrow> real_t list list" where
  "lanczos_matrixForm gamma delta = tridiagonal (Fin 0) gamma delta"

text \<open>
  The eigenvalues of a real square matrix: the numbers \<open>l\<close> with \<open>T v = l v\<close> for some
  nonzero vector \<open>v\<close>.
\<close>

definition rmatvec :: "real list list \<Rightarrow> real list \<Rightarrow> real list" where
  "rmatvec T v = map (\<lambda>row. rdot row v) T"

definition spectrum :: "real list list \<Rightarrow> real set" where
  "spectrum T =
     {l. \<exists>v. length v = length T \<and> v \<noteq> replicate (length T) 0 \<and> rmatvec T v = rscale l v}"

text \<open>
  Modelled from the spec: the symmetric tridiagonal eigensolver (Eigen's self-adjoint
  eigensolver, not among the sources). It returns the full eigenvalue set of the
  matrix in ascending order; an eigenvalue is listed once. The specification says
  nothing of a matrix with a non-finite entry: the model returns NaNs for it.
\<close>

fun is_fin :: "real_t \<Rightarrow> bool" where
  "is_fin (Fin a) = True"
| "is_fin _ = False"

fun the_fin :: "real_t \<Rightarrow> real" where
  "the_fin (Fin a) = a"
| "the_fin _ = 0"

definition self_adjoint_eigenvalues :: "real_t list list \<Rightarrow> real_t list" where
  "self_adjoint_eigenvalues T =
     (if list_all (list_all is_fin) T
      then map Fin (sorted_list_of_set (spectrum (map (map the_fin) T)))
      else replicate (length T) NaN)"

section \<open>The coefficient trace\<close>

lemma step_tracking:
  assumes "m_calcEigenvals s" "m_delta s \<noteq> []"
  shows "\<exists>conv x' s'. step x s = Some (conv, x', s') \<and> m_calcEigenvals s' \<and>
           (let alpha = fdiv (m_abs_new s) (vdot (m_update s) (op_apply (m_mat s) (m_update s)))
            in (conv \<longrightarrow> m_gamma s' = m_gamma s \<and>
                  m_delta s' = butlast (m_delta s) @ [fadd (last (m_delta s)) (fdiv (Fin 1) alpha)]) \<and>
               (\<not> conv \<longrightarrow>
                  (let beta = fdiv (m_abs_new s') (m_abs_new s)
                   in m_gamma s' = m_gamma s @ [fdiv (fneg (fsqrt beta)) alpha] \<and>
                      m_delta s' = butlast (m_delta s)
                         @ [fadd (last (m_delta s)) (fdiv (Fin 1) alpha), fdiv beta alpha])))"
  using assms by (auto simp add: step_def Let_def)

lemma step_untracked:
  assumes "\<not> m_calcEigenvals s"
  shows "\<exists>conv x' s'. step x s = Some (conv, x', s') \<and> \<not> m_calcEigenvals s' \<and>
     m_delta s' = m_delta s \<and> m_gamma s' = m_gamma s"
  using assms by (auto simp add: step_def Let_def)

lemma step_config:
  assumes "step x s = Some (conv, x', s')"
  shows "m_calcEigenvals s' = m_calcEigenvals s \<and> m_mat s' = m_mat s \<and> m_precond s' = m_precond s
    \<and> m_tol s' = m_tol s \<and> m_max_iters s' = m_max_iters s \<and> m_rhs_norm s' = m_rhs_norm s \<and> m_num_iter s' = m_num_iter s"
  using assms by (auto simp add: step_def Let_def split: if_splits)

lemma init_tracking:
  assumes "m_calcEigenvals s" "initIteration rhs x s = (fin, x', s')"
  shows "m_delta s' = [Fin 0] \<and> m_gamma s' = [] \<and> m_calcEigenvals s'"
  using assms by (auto simp add: initIteration_def Base_initIteration_def Let_def split: if_splits)

lemma init_untracked:
  assumes "\<not> m_calcEigenvals s" "initIteration rhs x s = (fin, x', s')"
  shows "m_delta s' = m_delta s \<and> m_gamma s' = m_gamma s \<and> \<not> m_calcEigenvals s'"
  using assms by (auto simp add: initIteration_def Base_initIteration_def Let_def split: if_splits)

lemma step_trace_ok:
  assumes "trace_ok s"
  shows "\<exists>conv x' s'. step x s = Some (conv, x', s') \<and> trace_ok s'"
proof -
  from assms have t: "m_calcEigenvals s" and d: "m_delta s \<noteq> []"
    by (auto simp: trace_ok_def)
  from step_tracking[OF t d, of x] obtain conv x' s' where
    st: "step x s = Some (conv, x', s')" and c: "m_calcEigenvals s'"
    and r: "(conv \<longrightarrow> length (m_gamma s') = length (m_gamma s) \<and> length (m_delta s') = length (m_delta s))
       \<and> (\<not> conv \<longrightarrow> length (m_gamma s') = length (m_gamma s) + 1 \<and> length (m_delta s') = length (m_delta s) + 1)"
    using d by (fastforce simp: Let_def)
  with assms show ?thesis by (cases conv) (auto simp: trace_ok_def)
qed

lemma solve_loop_trace_ok:
  "trace_ok s \<Longrightarrow> \<exists>st x' s'. solve_loop k x s = Some (st, x', s') \<and> trace_ok s'"
proof (induction k arbitrary: x s)
  case 0
  then show ?case by simp
next
  case (Suc k)
  from step_trace_ok[OF Suc.prems, of x] obtain conv x' s' where
    st: "step x s = Some (conv, x', s')" and ok: "trace_ok s'" by blast
  let ?s = "s'\<lparr>m_num_iter := m_num_iter s' + 1\<rparr>"
  from ok have ok': "trace_ok ?s" by (simp add: trace_ok_def)
  show ?case
  proof (cases conv)
    case True
    with st ok' show ?thesis by simp
  next
    case False
    with st Suc.IH[OF ok', of x'] show ?thesis by simp
  qed
qed

lemma solve_trace_ok:
  assumes "m_calcEigenvals s"
  shows "\<exists>st x' s'. solve rhs x s = Some (st, x', s') \<and> trace_ok s'"
proof -
  obtain fin x1 s1 where i: "initIteration rhs x (s\<lparr>m_num_iter := 0\<rparr>) = (fin, x1, s1)"
    by (metis prod_cases3)
  from assms have "m_calcEigenvals (s\<lparr>m_num_iter := 0\<rparr>)" by simp
  from init_tracking[OF this i] have ok: "trace_ok s1" by (simp add: trace_ok_def)
  show ?thesis
  proof (cases fin)
    case True
    with i ok show ?thesis by (simp add: solve_def)
  next
    case False
    with i solve_loop_trace_ok[OF ok, of "m_max_iters s1" x1] show ?thesis by (simp add: solve_def)
  qed
qed

text \<open>
  C2. With spectrum tracking enabled, \<open>initIteration\<close> leaves \<open>delta\<close> with one element
  and \<open>gamma\<close> empty; a step taken with \<open>len(delta) = len(gamma) + 1\<close> returns with that
  equation again: a converging step replaces the last element of \<open>delta\<close> and appends
  nothing, any other step also appends one element to each sequence; and \<open>solve\<close> ends
  with the equation.
\<close>

theorem coefficient_trace_invariant:
  assumes "m_calcEigenvals s"
  shows "(case initIteration rhs x s of (fin, x', s') \<Rightarrow> m_delta s' = [Fin 0] \<and> m_gamma s' = [])
       \<and> (length (m_delta s) = length (m_gamma s) + 1 \<longrightarrow>
            (\<exists>conv x' s'. step x s = Some (conv, x', s') \<and>
               length (m_delta s') = length (m_gamma s') + 1 \<and>
               (conv \<longrightarrow> m_gamma s' = m_gamma s \<and> (\<exists>d. m_delta s' = butlast (m_delta s) @ [d])) \<and>
               (\<not> conv \<longrightarrow> (\<exists>g d e. m_gamma s' = m_gamma s @ [g] \<and>
                                      m_delta s' = butlast (m_delta s) @ [d, e]))))
       \<and> (\<exists>st x' s'. solve rhs x s = Some (st, x', s') \<and>
             length (m_delta s') = length (m_gamma s') + 1)"
proof (intro conjI impI)
  show "case initIteration rhs x s of (fin, x', s') \<Rightarrow> m_delta s' = [Fin 0] \<and> m_gamma s' = []"
    using init_tracking[OF assms, of rhs x] by (cases "initIteration rhs x s") simp
next
  assume len: "length (m_delta s) = length (m_gamma s) + 1"
  then have d: "m_delta s \<noteq> []" by auto
  from step_tracking[OF assms d, of x] obtain conv x' s' where
    st: "step x s = Some (conv, x', s')"
    and c: "conv \<Longrightarrow> m_gamma s' = m_gamma s \<and> (\<exists>d. m_delta s' = butlast (m_delta s) @ [d])"
    and n: "\<not> conv \<Longrightarrow> (\<exists>g d e. m_gamma s' = m_gamma s @ [g] \<and> m_delta s' = butlast (m_delta s) @ [d, e])"
    by (fastforce simp: Let_def)
  have "length (m_delta s') = length (m_gamma s') + 1"
  proof (cases conv)
    case True
    with c len show ?thesis by auto
  next
    case False
    with n len show ?thesis by auto
  qed
  with st c n show "\<exists>conv x' s'. step x s = Some (conv, x', s') \<and>
               length (m_delta s') = length (m_gamma s') + 1 \<and>
               (conv \<longrightarrow> m_gamma s' = m_gamma s \<and> (\<exists>d. m_delta s' = butlast (m_delta s) @ [d])) \<and>
               (\<not> conv \<longrightarrow> (\<exists>g d e. m_gamma s' = m_gamma s @ [g] \<and>
                                      m_delta s' = butlast (m_delta s) @ [d, e]))"
    by blast
next
  show "\<exists>st x' s'. solve rhs x s = Some (st, x', s') \<and> length (m_delta s') = length (m_gamma s') + 1"
    using solve_trace_ok[OF assms, of rhs x] by (auto simp: trace_ok_def)
qed

theorem coefficient_trace_invariant_witness:
  "m_calcEigenvals (demo_solver True)
   \<and> m_delta (after_init [Fin 1, Fin 2] [Fin 0, Fin 0] (demo_solver True)) = [Fin 0]
   \<and> m_gamma (after_init [Fin 1, Fin 2] [Fin 0, Fin 0] (demo_solver True)) = []
   \<and> (\<exists>conv x' s'. step [Fin 0, Fin 0] (after_init [Fin 1, Fin 2] [Fin 0, Fin 0] (demo_solver True))
          = Some (conv, x', s') \<and> length (m_delta s') = length (m_gamma s') + 1)
   \<and> (\<exists>st x' s'. solve [Fin 1, Fin 2] [Fin 0, Fin 0] (demo_solver True) = Some (st, x', s') \<and>
             length (m_delta s') = length (m_gamma s') + 1)"
proof -
  let ?s = "demo_solver True"
  let ?s1 = "after_init [Fin 1, Fin 2] [Fin 0, Fin 0] ?s"
  have t: "m_calcEigenvals ?s" by (simp add: demo_solver_def new_solver_def)
  note a = coefficient_trace_invariant[OF t, of "[Fin 1, Fin 2]" "[Fin 0, Fin 0]"]
  from a have d: "m_delta ?s1 = [Fin 0]" and g: "m_gamma ?s1 = []"
    by (auto simp: after_init_def split: prod.splits)
  have t1: "m_calcEigenvals ?s1"
    using init_tracking[OF t, of "[Fin 1, Fin 2]" "[Fin 0, Fin 0]"]
    by (cases "initIteration [Fin 1, Fin 2] [Fin 0, Fin 0] ?s") (simp add: after_init_def)
  have l: "length (m_delta ?s1) = length (m_gamma ?s1) + 1" using d g by simp
  from coefficient_trace_invariant[OF t1, of "[]" "[Fin 0, Fin 0]"] l
  have "\<exists>conv x' s'. step [Fin 0, Fin 0] ?s1 = Some (conv, x', s') \<and> length (m_delta s') = length (m_gamma s') + 1"
    by blast
  with t d g a show ?thesis by blast
qed

lemma demo_tracking: "m_calcEigenvals (demo_solver True)"
  by (simp add: demo_solver_def new_solver_def)

lemma demo_untracked: "\<not> m_calcEigenvals (demo_solver False) \<and> m_delta (demo_solver False) = []"
  by (simp add: demo_solver_def new_solver_def)

lemma demo_after_init:
  "m_calcEigenvals (after_init rhs x (demo_solver True))
   \<and> m_delta (after_init rhs x (demo_solver True)) = [Fin 0]
   \<and> m_gamma (after_init rhs x (demo_solver True)) = []"
  using init_tracking[OF demo_tracking, of rhs x]
  by (cases "initIteration rhs x (demo_solver True)") (simp add: after_init_def)

text \<open>
  C6. With tracking enabled (and \<open>delta\<close> non-empty, as \<open>initIteration\<close> leaves it), every step
  adds \<open>1/alpha\<close> to the last element of \<open>delta\<close>, and a step that does not report
  convergence appends \<open>-sqrt(beta)/alpha\<close> to \<open>gamma\<close> and \<open>beta/alpha\<close> to \<open>delta\<close>, where
  \<open>alpha = absNew / (update \<cdot> A update)\<close> and \<open>beta\<close> is the new \<open>absNew\<close> over the old one.
\<close>

theorem step_records_coefficients:
  assumes "m_calcEigenvals s" and "m_delta s \<noteq> []"
  shows "\<exists>conv x' s'. step x s = Some (conv, x', s') \<and>
           (let alpha = fdiv (m_abs_new s) (vdot (m_update s) (op_apply (m_mat s) (m_update s)))
            in (conv \<longrightarrow> m_gamma s' = m_gamma s \<and>
                  m_delta s' = butlast (m_delta s) @ [fadd (last (m_delta s)) (fdiv (Fin 1) alpha)]) \<and>
               (\<not> conv \<longrightarrow>
                  (let beta = fdiv (m_abs_new s') (m_abs_new s)
                   in m_abs_new s' = vdot (m_res s') (op_apply (m_precond s) (m_res s')) \<and>
                      m_gamma s' = m_gamma s @ [fdiv (fneg (fsqrt beta)) alpha] \<and>
                      m_delta s' = butlast (m_delta s)
                         @ [fadd (last (m_delta s)) (fdiv (Fin 1) alpha), fdiv beta alpha])))"
  using assms by (auto simp add: step_def Let_def)

theorem step_records_coefficients_witness:
  "m_calcEigenvals (after_init [Fin 3, Fin 4] [Fin 0, Fin 0] (demo_solver True))
   \<and> m_delta (after_init [Fin 3, Fin 4] [Fin 0, Fin 0] (demo_solver True)) \<noteq> []
   \<and> (\<exists>conv x' s'.
         step [Fin 0, Fin 0] (after_init [Fin 3, Fin 4] [Fin 0, Fin 0] (demo_solver True))
           = Some (conv, x', s') \<and>
         (conv \<longrightarrow> m_gamma s' = [] \<and> m_delta s' = [Fin (73 / 25)]) \<and>
         (\<not> conv \<longrightarrow>
            m_gamma s' = [fdiv (fneg (fsqrt (fdiv (m_abs_new s') (Fin 25)))) (Fin (25 / 73))] \<and>
            m_delta s' = [Fin (73 / 25), fdiv (fdiv (m_abs_new s') (Fin 25)) (Fin (25 / 73))]))"
proof -
  let ?s = "after_init [Fin 3, Fin 4] [Fin 0, Fin 0] (demo_solver True)"
  have t: "m_calcEigenvals ?s" and d: "m_delta ?s \<noteq> []" and d0: "m_delta ?s = [Fin 0]"
    and g0: "m_gamma ?s = []"
    using demo_after_init[of "[Fin 3, Fin 4]" "[Fin 0, Fin 0]"] by simp_all
  have i: "initIteration [Fin 3, Fin 4] [Fin 0, Fin 0] (demo_solver True) =
     (False, [Fin 0, Fin 0],
      (demo_solver True)\<lparr>m_rhs_norm := Fin 5, m_error := Fin 1, m_res := [Fin 3, Fin 4],
         m_update := [Fin 3, Fin 4], m_tmp := [Fin 0, Fin 0], m_abs_new := Fin 25,
         m_delta := [Fin 0], m_gamma := []\<rparr>)"
    by (simp add: demo_solver_def diag14_def new_solver_def gsMatrixOp_def gsIdentityOp_def
      initIteration_def Base_initIteration_def vnorm_def vdot_def vsub_def fsub_def feq_def
      resize_def Let_def)
  have a: "vdot (m_update ?s) (op_apply (m_mat ?s) (m_update ?s)) = Fin 73"
    and b: "m_abs_new ?s = Fin 25"
    by (simp_all add: after_init_def i)
       (simp_all add: demo_solver_def diag14_def new_solver_def gsMatrixOp_def vdot_def)
  from step_records_coefficients[OF t d, of "[Fin 0, Fin 0]"]
  have "\<exists>conv x' s'.
         step [Fin 0, Fin 0] ?s = Some (conv, x', s') \<and>
         (conv \<longrightarrow> m_gamma s' = [] \<and> m_delta s' = [Fin (73 / 25)]) \<and>
         (\<not> conv \<longrightarrow>
            m_gamma s' = [fdiv (fneg (fsqrt (fdiv (m_abs_new s') (Fin 25)))) (Fin (25 / 73))] \<and>
            m_delta s' = [Fin (73 / 25), fdiv (fdiv (m_abs_new s') (Fin 25)) (Fin (25 / 73))])"
    by (simp add: Let_def a b d0 g0) blast
  with t d show ?thesis by blast
qed

section \<open>Spectral queries\<close>

lemma solve_loop_untracked:
  "\<not> m_calcEigenvals s \<Longrightarrow> \<exists>st x' s'. solve_loop k x s = Some (st, x', s') \<and> m_delta s' = m_delta s"
proof (induction k arbitrary: x s)
  case 0
  then show ?case by simp
next
  case (Suc k)
  from step_untracked[OF Suc.prems, of x] obtain conv x' s' where
    st: "step x s = Some (conv, x', s')" and u: "\<not> m_calcEigenvals s'" and d: "m_delta s' = m_delta s"
    by blast
  let ?s = "s'\<lparr>m_num_iter := m_num_iter s' + 1\<rparr>"
  from u have u': "\<not> m_calcEigenvals ?s" by simp
  show ?case
  proof (cases conv)
    case True
    with st d show ?thesis by simp
  next
    case False
    with st d Suc.IH[OF u', of x'] show ?thesis by simp
  qed
qed

lemma solve_untracked:
  assumes "\<not> m_calcEigenvals s"
  shows "\<exists>st x' s'. solve rhs x s = Some (st, x', s') \<and> m_delta s' = m_delta s"
proof -
  obtain fin x1 s1 where i: "initIteration rhs x (s\<lparr>m_num_iter := 0\<rparr>) = (fin, x1, s1)"
    by (metis prod_cases3)
  from assms have "\<not> m_calcEigenvals (s\<lparr>m_num_iter := 0\<rparr>)" by simp
  from init_untracked[OF this i] have u: "\<not> m_calcEigenvals s1" and d: "m_delta s1 = m_delta s"
    by simp_all
  show ?thesis
  proof (cases fin)
    case True
    with i d show ?thesis by (simp add: solve_def)
  next
    case False
    with i d solve_loop_untracked[OF u, of "m_max_iters s1" x1] show ?thesis
      by (simp add: solve_def)
  qed
qed

text \<open>
  C3. \<open>getConditionNumber\<close> returns the sentinel \<open>-1\<close> with one diagnostic when the recorded
  \<open>delta\<close> is empty, and otherwise the quotient of the largest by the smallest eigenvalue
  that the tridiagonal matrix of the recorded \<open>gamma\<close> and \<open>delta\<close> reports, with no
  diagnostic. A solve with tracking disabled leaves an empty \<open>delta\<close> empty, so the
  sentinel is returned after it as well.
\<close>

theorem getConditionNumber_sentinel_or_ratio:
  "(m_delta s = [] \<longrightarrow>
      getConditionNumber maxEigenvalue minEigenvalue s = ([condition_number_warning], Fin (- 1)))
   \<and> (m_delta s \<noteq> [] \<longrightarrow>
      getConditionNumber maxEigenvalue minEigenvalue s
        = ([], fdiv (maxEigenvalue (m_gamma s) (m_delta s)) (minEigenvalue (m_gamma s) (m_delta s))))
   \<and> (m_delta s = [] \<and> \<not> m_calcEigenvals s \<longrightarrow>
        (\<exists>st x' s'. solve rhs x s = Some (st, x', s') \<and>
           getConditionNumber maxEigenvalue minEigenvalue s' = ([condition_number_warning], Fin (- 1))))"
proof (intro conjI impI)
  assume "m_delta s = [] \<and> \<not> m_calcEigenvals s"
  then have e: "m_delta s = []" and u: "\<not> m_calcEigenvals s" by simp_all
  from solve_untracked[OF u, of rhs x] e obtain st x' s' where
    "solve rhs x s = Some (st, x', s')" and "m_delta s' = []" by auto
  then show "\<exists>st x' s'. solve rhs x s = Some (st, x', s') \<and>
           getConditionNumber maxEigenvalue minEigenvalue s' = ([condition_number_warning], Fin (- 1))"
    by (simp add: getConditionNumber_def condition_number_warning_def)
qed (simp_all add: getConditionNumber_def condition_number_warning_def)

theorem getConditionNumber_sentinel_or_ratio_witness:
  "m_delta (demo_solver False) = [] \<and> \<not> m_calcEigenvals (demo_solver False)
   \<and> getConditionNumber (\<lambda>g d. last d) (\<lambda>g d. hd d) (demo_solver False)
        = ([condition_number_warning], Fin (- 1))
   \<and> (\<exists>st x' s'. solve [Fin 3, Fin 4] [Fin 0, Fin 0] (demo_solver False) = Some (st, x', s') \<and>
           getConditionNumber (\<lambda>g d. last d) (\<lambda>g d. hd d) s' = ([condition_number_warning], Fin (- 1)))
   \<and> m_delta ((demo_solver False)\<lparr>m_delta := [Fin 2, Fin 3], m_gamma := [Fin 0]\<rparr>) \<noteq> []
   \<and> getConditionNumber (\<lambda>g d. last d) (\<lambda>g d. hd d)
         ((demo_solver False)\<lparr>m_delta := [Fin 2, Fin 3], m_gamma := [Fin 0]\<rparr>)
        = ([], Fin (3 / 2))"
  using getConditionNumber_sentinel_or_ratio[of "demo_solver False" "\<lambda>g d. last d" "\<lambda>g d. hd d"
            "[Fin 3, Fin 4]" "[Fin 0, Fin 0]"]
    getConditionNumber_sentinel_or_ratio[of "(demo_solver False)\<lparr>m_delta := [Fin 2, Fin 3], m_gamma := [Fin 0]\<rparr>"
       "\<lambda>g d. last d" "\<lambda>g d. hd d"]
    demo_untracked
  by simp

text \<open>
  C10. When \<open>initIteration\<close> runs with tracking enabled, it leaves \<open>delta = [0]\<close> and
  \<open>gamma = []\<close> whatever it returns; so when the solve converges before any step (zero
  iterations), \<open>getConditionNumber\<close> does not return the sentinel: it returns the quotient
  computed from the trivial trace, with no diagnostic.
\<close>

theorem trivial_trace_after_early_convergence:
  assumes "m_calcEigenvals s"
  shows "(case initIteration rhs x s of (fin, x', s') \<Rightarrow>
            m_delta s' = [Fin 0] \<and> m_gamma s' = [] \<and>
            getConditionNumber maxEigenvalue minEigenvalue s'
              = ([], fdiv (maxEigenvalue [] [Fin 0]) (minEigenvalue [] [Fin 0])))
       \<and> (fst (initIteration rhs x (s\<lparr>m_num_iter := 0\<rparr>)) \<longrightarrow>
            (\<exists>x' s'. solve rhs x s = Some (Converged, x', s') \<and> m_num_iter s' = 0 \<and>
               m_delta s' = [Fin 0] \<and> m_gamma s' = [] \<and>
               getConditionNumber maxEigenvalue minEigenvalue s'
                 = ([], fdiv (maxEigenvalue [] [Fin 0]) (minEigenvalue [] [Fin 0]))))"
proof (intro conjI impI)
  show "case initIteration rhs x s of (fin, x', s') \<Rightarrow>
            m_delta s' = [Fin 0] \<and> m_gamma s' = [] \<and>
            getConditionNumber maxEigenvalue minEigenvalue s'
              = ([], fdiv (maxEigenvalue [] [Fin 0]) (minEigenvalue [] [Fin 0]))"
    using init_tracking[OF assms, of rhs x]
    by (cases "initIteration rhs x s") (simp add: getConditionNumber_def)
next
  assume f: "fst (initIteration rhs x (s\<lparr>m_num_iter := 0\<rparr>))"
  obtain fin x1 s1 where i: "initIteration rhs x (s\<lparr>m_num_iter := 0\<rparr>) = (fin, x1, s1)"
    by (metis prod_cases3)
  from assms have t: "m_calcEigenvals (s\<lparr>m_num_iter := 0\<rparr>)" by simp
  from init_tracking[OF t i] have d: "m_delta s1 = [Fin 0]" and g: "m_gamma s1 = []" by simp_all
  have n: "m_num_iter s1 = 0"
    using i by (auto simp add: initIteration_def Base_initIteration_def Let_def split: if_splits)
  from f i have "solve rhs x s = Some (Converged, x1, s1)" by (simp add: solve_def)
  with d g n show "\<exists>x' s'. solve rhs x s = Some (Converged, x', s') \<and> m_num_iter s' = 0 \<and>
               m_delta s' = [Fin 0] \<and> m_gamma s' = [] \<and>
               getConditionNumber maxEigenvalue minEigenvalue s'
                 = ([], fdiv (maxEigenvalue [] [Fin 0]) (minEigenvalue [] [Fin 0]))"
    by (simp add: getConditionNumber_def)
qed

lemma vnorm_zero2: "vnorm [Fin 0, Fin 0] = Fin 0"
  by (simp add: vnorm_def vdot_def)

theorem trivial_trace_after_early_convergence_witness:
  "m_calcEigenvals (demo_solver True)
   \<and> fst (initIteration [Fin 0, Fin 0] [Fin 1, Fin 1] ((demo_solver True)\<lparr>m_num_iter := 0\<rparr>))
   \<and> (\<exists>x' s'. solve [Fin 0, Fin 0] [Fin 1, Fin 1] (demo_solver True) = Some (Converged, x', s') \<and>
          m_num_iter s' = 0 \<and> m_delta s' = [Fin 0] \<and> m_gamma s' = [] \<and>
          getConditionNumber (\<lambda>g d. last d) (\<lambda>g d. hd d) s' = ([], NaN))"
proof -
  have f: "fst (initIteration [Fin 0, Fin 0] [Fin 1, Fin 1] ((demo_solver True)\<lparr>m_num_iter := 0\<rparr>))"
    by (simp add: initIteration_def Base_initIteration_def vnorm_zero2 feq_def Let_def)
  from trivial_trace_after_early_convergence[OF demo_tracking, where rhs = "[Fin 0, Fin 0]"
      and x = "[Fin 1, Fin 1]" and maxEigenvalue = "\<lambda>g d. last d" and minEigenvalue = "\<lambda>g d. hd d"]
    f demo_tracking
  show ?thesis by simp
qed

section \<open>Zero right-hand side\<close>

lemma foldl_fadd_zero: "foldl fadd (Fin 0) (replicate n (Fin 0)) = Fin 0"
  by (induction n) simp_all

lemma vnorm_zero: "vnorm (replicate n (Fin 0)) = Fin 0"
  by (simp add: vnorm_def vdot_def zip_replicate foldl_fadd_zero)

text \<open>
  C7. With a right-hand side of norm zero, \<open>solve\<close> returns the zero vector, the
  terminal state \<open>Converged\<close> and an iteration count of zero, for every operator and every
  initial guess. The solver is left as it was but for the count, the norm of the
  right-hand side and the reset trace: the relative residual (a quotient by that norm)
  is never computed. The zero vector of any dimension is such a right-hand side.
\<close>

theorem zero_rhs_converges_at_once:
  "(feq (Fin 0) (vnorm rhs) \<longrightarrow>
      solve rhs x s =
        Some (Converged, replicate (length rhs) (Fin 0),
              (if m_calcEigenvals s
               then s\<lparr>m_num_iter := 0, m_rhs_norm := Fin 0, m_delta := [Fin 0], m_gamma := []\<rparr>
               else s\<lparr>m_num_iter := 0, m_rhs_norm := Fin 0\<rparr>)))
   \<and> feq (Fin 0) (vnorm (replicate n (Fin 0)))"
proof (intro conjI impI)
  assume "feq (Fin 0) (vnorm rhs)"
  then show "solve rhs x s =
        Some (Converged, replicate (length rhs) (Fin 0),
              (if m_calcEigenvals s
               then s\<lparr>m_num_iter := 0, m_rhs_norm := Fin 0, m_delta := [Fin 0], m_gamma := []\<rparr>
               else s\<lparr>m_num_iter := 0, m_rhs_norm := Fin 0\<rparr>))"
    by (auto simp add: solve_def initIteration_def Base_initIteration_def feq_def Let_def)
next
  show "feq (Fin 0) (vnorm (replicate n (Fin 0)))"
    by (simp add: vnorm_zero feq_def)
qed

theorem zero_rhs_converges_at_once_witness:
  "feq (Fin 0) (vnorm [Fin 0, Fin 0])
   \<and> solve [Fin 0, Fin 0] [Fin 1, Fin 1] (demo_solver False) =
       Some (Converged, [Fin 0, Fin 0], demo_solver False)"
proof -
  note t = zero_rhs_converges_at_once[where rhs = "[Fin 0, Fin 0]" and x = "[Fin 1, Fin 1]"
      and s = "demo_solver False" and n = 2]
  from t have z: "feq (Fin 0) (vnorm [Fin 0, Fin 0])" by (simp add: numeral_2_eq_2)
  with t show ?thesis by (simp add: demo_solver_def new_solver_def)
qed

section \<open>The identity preconditioner\<close>

lemma same_but_tmp_fields:
  assumes "same_but_tmp s t"
  shows "m_mat s = m_mat t" "m_precond s = m_precond t" "m_max_iters s = m_max_iters t"
    "m_tol s = m_tol t" "m_calcEigenvals s = m_calcEigenvals t" "m_num_iter s = m_num_iter t"
    "m_rhs_norm s = m_rhs_norm t" "m_error s = m_error t" "m_res s = m_res t"
    "m_update s = m_update t" "m_abs_new s = m_abs_new t" "m_delta s = m_delta t"
    "m_gamma s = m_gamma t"
  using assms unfolding same_but_tmp_def
  by (cases s; cases t; simp)+

lemma step_unpreconditioned_sim:
  assumes r: "same_but_tmp s t" and p: "op_apply (m_precond s) = (\<lambda>v. v)"
  shows "(step x s = None \<and> step_unpreconditioned x t = None)
       \<or> (\<exists>conv x' s' t'. step x s = Some (conv, x', s') \<and>
             step_unpreconditioned x t = Some (conv, x', t') \<and> same_but_tmp s' t'
             \<and> op_apply (m_precond s') = (\<lambda>v. v))"
proof -
  note f = same_but_tmp_fields[OF r]
  from p f(2) have p': "op_apply (m_precond t) = (\<lambda>v. v)" by simp
  show ?thesis
  proof (cases "m_calcEigenvals t \<and> m_delta t = []")
    case True
    then show ?thesis by (simp add: step_def step_unpreconditioned_def f)
  next
    case False
    then show ?thesis
      by (simp add: step_def step_unpreconditioned_def Let_def f p' same_but_tmp_def) blast
  qed
qed

lemma init_unpreconditioned_sim:
  assumes p: "op_apply (m_precond s) = (\<lambda>v. v)"
  shows "\<exists>fin x1 s1 t1. initIteration rhs x s = (fin, x1, s1) \<and>
           initIteration_unpreconditioned rhs x s = (fin, x1, t1) \<and> same_but_tmp s1 t1 \<and>
           op_apply (m_precond s1) = (\<lambda>v. v)"
  using p
  by (simp add: initIteration_def initIteration_unpreconditioned_def Base_initIteration_def
      Let_def same_but_tmp_def) blast

lemma iterates_from_sim:
  assumes "same_but_tmp s t" and "op_apply (m_precond s) = (\<lambda>v. v)"
  shows "iterates_from step k x s = iterates_from step_unpreconditioned k x t"
  using assms
proof (induction k arbitrary: x s t)
  case 0
  then show ?case by simp
next
  case (Suc k)
  from step_unpreconditioned_sim[OF Suc.prems, of x] show ?case
  proof (elim disjE conjE exE)
    assume "step x s = None" "step_unpreconditioned x t = None"
    then show ?thesis by simp
  next
    fix conv x' s' t'
    assume a: "step x s = Some (conv, x', s')" "step_unpreconditioned x t = Some (conv, x', t')"
      and r: "same_but_tmp s' t'" and p: "op_apply (m_precond s') = (\<lambda>v. v)"
    from a Suc.IH[OF r p, of x'] show ?thesis by simp
  qed
qed

text \<open>
  C8. With the identity as preconditioner, the solver produces the iterate sequence of
  the recurrence without preconditioning, for every operator, right-hand side and
  initial guess and any number of steps.
\<close>

theorem identity_preconditioner_same_iterates:
  assumes "op_apply (m_precond s) = (\<lambda>v. v)"
  shows "iterate_sequence initIteration step k rhs x s
       = iterate_sequence initIteration_unpreconditioned step_unpreconditioned k rhs x s"
proof -
  from init_unpreconditioned_sim[OF assms, of rhs x] obtain fin x1 s1 t1 where
    i: "initIteration rhs x s = (fin, x1, s1)"
    and u: "initIteration_unpreconditioned rhs x s = (fin, x1, t1)"
    and r: "same_but_tmp s1 t1" and p: "op_apply (m_precond s1) = (\<lambda>v. v)"
    by blast
  from iterates_from_sim[OF r p, of k x1] i u show ?thesis
    by (simp add: iterate_sequence_def)
qed

theorem identity_preconditioner_same_iterates_witness:
  "op_apply (m_precond (demo_solver False)) = (\<lambda>v. v)
   \<and> iterate_sequence initIteration step 1 [Fin 3, Fin 4] [Fin 0, Fin 0] (demo_solver False)
       = [[Fin 0, Fin 0], [Fin (75 / 73), Fin (100 / 73)]]
   \<and> iterate_sequence initIteration_unpreconditioned step_unpreconditioned 1 [Fin 3, Fin 4]
         [Fin 0, Fin 0] (demo_solver False)
       = [[Fin 0, Fin 0], [Fin (75 / 73), Fin (100 / 73)]]"
proof -
  have p: "op_apply (m_precond (demo_solver False)) = (\<lambda>v. v)"
    by (simp add: demo_solver_def new_solver_def gsIdentityOp_def)
  have i: "initIteration_unpreconditioned [Fin 3, Fin 4] [Fin 0, Fin 0] (demo_solver False) =
     (False, [Fin 0, Fin 0],
      (demo_solver False)\<lparr>m_rhs_norm := Fin 5, m_error := Fin 1, m_res := [Fin 3, Fin 4],
         m_update := [Fin 3, Fin 4], m_tmp := [Fin 0, Fin 0], m_abs_new := Fin 25\<rparr>)"
    by (simp add: demo_solver_def diag14_def new_solver_def gsMatrixOp_def gsIdentityOp_def
      initIteration_unpreconditioned_def Base_initIteration_def vnorm_def vdot_def vsub_def
      fsub_def feq_def resize_def Let_def)
  have "iterate_sequence initIteration_unpreconditioned step_unpreconditioned 1 [Fin 3, Fin 4]
         [Fin 0, Fin 0] (demo_solver False)
       = [[Fin 0, Fin 0], [Fin (75 / 73), Fin (100 / 73)]]"
    by (simp add: iterate_sequence_def i)
       (simp add: demo_solver_def diag14_def new_solver_def gsMatrixOp_def
          step_unpreconditioned_def vnorm_def vdot_def vsub_def vadd_def vscale_def fsub_def
          Let_def)
  with identity_preconditioner_same_iterates[OF p, of 1 "[Fin 3, Fin 4]" "[Fin 0, Fin 0]"] p
  show ?thesis by simp
qed

section \<open>No breakdown detection\<close>

lemma breakdown_init:
  "initIteration [Fin 0, Fin 1] [Fin 0, Fin 0] breakdown_solver =
     (False, [Fin 0, Fin 0],
      breakdown_solver\<lparr>m_rhs_norm := Fin 1, m_error := Fin 1, m_res := [Fin 0, Fin 1],
         m_update := [Fin 0, Fin 1], m_tmp := [Fin 0, Fin 0], m_abs_new := Fin 1\<rparr>)"
  by (simp add: breakdown_solver_def singular_op_def new_solver_def gsMatrixOp_def gsIdentityOp_def
      initIteration_def Base_initIteration_def vnorm_def vdot_def vsub_def
      fsub_def feq_def resize_def Let_def)

lemma breakdown_fields:
  "m_abs_new (after_init [Fin 0, Fin 1] [Fin 0, Fin 0] breakdown_solver) = Fin 1"
  "m_update (after_init [Fin 0, Fin 1] [Fin 0, Fin 0] breakdown_solver) = [Fin 0, Fin 1]"
  "m_res (after_init [Fin 0, Fin 1] [Fin 0, Fin 0] breakdown_solver) = [Fin 0, Fin 1]"
  "op_apply (m_mat (after_init [Fin 0, Fin 1] [Fin 0, Fin 0] breakdown_solver)) [Fin 0, Fin 1]
     = [Fin 0, Fin 0]"
  "m_tol (after_init [Fin 0, Fin 1] [Fin 0, Fin 0] breakdown_solver) = Fin (1 / 10)"
  "m_rhs_norm (after_init [Fin 0, Fin 1] [Fin 0, Fin 0] breakdown_solver) = Fin 1"
  "m_calcEigenvals (after_init [Fin 0, Fin 1] [Fin 0, Fin 0] breakdown_solver) = False"
  "m_mat (after_init [Fin 0, Fin 1] [Fin 0, Fin 0] breakdown_solver) = m_mat breakdown_solver"
  by (simp_all add: after_init_def breakdown_init)
     (simp_all add: breakdown_solver_def singular_op_def new_solver_def gsMatrixOp_def vdot_def)

lemma breakdown_run:
  "map_option fst (step [Fin 0, Fin 0] (after_init [Fin 0, Fin 1] [Fin 0, Fin 0] breakdown_solver))
        = Some False"
  "map_option (fst \<circ> snd) (step [Fin 0, Fin 0] (after_init [Fin 0, Fin 1] [Fin 0, Fin 0] breakdown_solver))
        = Some [NaN, PInf]"
  "map_option fst (solve [Fin 0, Fin 1] [Fin 0, Fin 0] breakdown_solver) = Some Exhausted"
  "map_option (m_num_iter \<circ> snd \<circ> snd) (solve [Fin 0, Fin 1] [Fin 0, Fin 0] breakdown_solver)
        = Some 2"
proof -
  have z: "breakdown_solver\<lparr>m_num_iter := 0\<rparr> = breakdown_solver"
    by (simp add: breakdown_solver_def new_solver_def)
  have "map_option fst (step [Fin 0, Fin 0] (after_init [Fin 0, Fin 1] [Fin 0, Fin 0] breakdown_solver))
        = Some False
   \<and> map_option (fst \<circ> snd) (step [Fin 0, Fin 0] (after_init [Fin 0, Fin 1] [Fin 0, Fin 0] breakdown_solver))
        = Some [NaN, PInf]
   \<and> map_option fst (solve [Fin 0, Fin 1] [Fin 0, Fin 0] breakdown_solver) = Some Exhausted
   \<and> map_option (m_num_iter \<circ> snd \<circ> snd) (solve [Fin 0, Fin 1] [Fin 0, Fin 0] breakdown_solver)
        = Some 2"
    apply (simp add: after_init_def breakdown_init solve_def z)
    apply (simp add: breakdown_solver_def singular_op_def new_solver_def gsMatrixOp_def gsIdentityOp_def
       step_def vnorm_def vdot_def vsub_def vadd_def vscale_def fsub_def signed_inf_def Let_def
       numeral_2_eq_2)
    apply blast
    done
  then show
    "map_option fst (step [Fin 0, Fin 0] (after_init [Fin 0, Fin 1] [Fin 0, Fin 0] breakdown_solver))
        = Some False"
    "map_option (fst \<circ> snd) (step [Fin 0, Fin 0] (after_init [Fin 0, Fin 1] [Fin 0, Fin 0] breakdown_solver))
        = Some [NaN, PInf]"
    "map_option fst (solve [Fin 0, Fin 1] [Fin 0, Fin 0] breakdown_solver) = Some Exhausted"
    "map_option (m_num_iter \<circ> snd \<circ> snd) (solve [Fin 0, Fin 1] [Fin 0, Fin 0] breakdown_solver)
        = Some 2"
    by simp_all
qed

text \<open>
  C1, as stated, fails. After \<open>initIteration\<close> on the singular operator, the inner product
  \<open>update \<cdot> A update\<close> is zero; the step does not stop: it divides, updates \<open>x\<close> with the
  infinite \<open>alpha\<close> and reports "not converged", and \<open>solve\<close> runs on to the iteration cap
  and ends \<open>Exhausted\<close>.
\<close>

theorem breakdown_not_detected:
  "fst (initIteration [Fin 0, Fin 1] [Fin 0, Fin 0] breakdown_solver) = False
   \<and> vdot (m_update (after_init [Fin 0, Fin 1] [Fin 0, Fin 0] breakdown_solver))
          (op_apply (m_mat breakdown_solver)
             (m_update (after_init [Fin 0, Fin 1] [Fin 0, Fin 0] breakdown_solver))) = Fin 0
   \<and> map_option fst (step [Fin 0, Fin 0] (after_init [Fin 0, Fin 1] [Fin 0, Fin 0] breakdown_solver))
        = Some False
   \<and> map_option (fst \<circ> snd) (step [Fin 0, Fin 0] (after_init [Fin 0, Fin 1] [Fin 0, Fin 0] breakdown_solver))
        = Some [NaN, PInf]
   \<and> map_option fst (solve [Fin 0, Fin 1] [Fin 0, Fin 0] breakdown_solver) = Some Exhausted
   \<and> map_option (m_num_iter \<circ> snd \<circ> snd) (solve [Fin 0, Fin 1] [Fin 0, Fin 0] breakdown_solver)
        = Some 2"
proof -
  have "vdot (m_update (after_init [Fin 0, Fin 1] [Fin 0, Fin 0] breakdown_solver))
          (op_apply (m_mat breakdown_solver)
             (m_update (after_init [Fin 0, Fin 1] [Fin 0, Fin 0] breakdown_solver))) = Fin 0"
    using breakdown_fields(4) by (simp add: breakdown_fields(2,8) vdot_def)
  then show ?thesis using breakdown_run by (simp add: breakdown_init)
qed

lemma solve_loop_terminal:
  "solve_loop k x s = Some (st, x', s') \<Longrightarrow> st = Converged \<or> st = Exhausted"
proof (induction k arbitrary: x s)
  case 0
  then show ?case by simp
next
  case (Suc k)
  then show ?case
    by (auto split: option.splits prod.splits if_splits simp: Let_def)
qed

text \<open>
  C1, amended. The step makes no breakdown test. Whatever the denominators are, it
  computes \<open>alpha = absNew / (update \<cdot> A update)\<close>, updates \<open>x\<close> by \<open>alpha update\<close> and the
  residual by \<open>alpha A update\<close>, and reports only whether the new relative residual is
  below the tolerance; and \<open>solve\<close> ends \<open>Converged\<close> or \<open>Exhausted\<close>, never \<open>Breakdown\<close>.
\<close>

theorem step_makes_no_breakdown_test:
  "((m_calcEigenvals s \<longrightarrow> m_delta s \<noteq> []) \<longrightarrow>
      (let alpha = fdiv (m_abs_new s) (vdot (m_update s) (op_apply (m_mat s) (m_update s)))
       in \<exists>s'. step x s = Some (fless (m_error s') (m_tol s), vadd x (vscale alpha (m_update s)), s')
            \<and> m_res s' = vsub (m_res s) (vscale alpha (op_apply (m_mat s) (m_update s)))
            \<and> m_error s' = fdiv (vnorm (m_res s')) (m_rhs_norm s)))
   \<and> (\<forall>st x' s'. solve rhs x s = Some (st, x', s') \<longrightarrow> st = Converged \<or> st = Exhausted)"
proof (intro conjI impI allI)
  assume "m_calcEigenvals s \<longrightarrow> m_delta s \<noteq> []"
  then show "let alpha = fdiv (m_abs_new s) (vdot (m_update s) (op_apply (m_mat s) (m_update s)))
       in \<exists>s'. step x s = Some (fless (m_error s') (m_tol s), vadd x (vscale alpha (m_update s)), s')
            \<and> m_res s' = vsub (m_res s) (vscale alpha (op_apply (m_mat s) (m_update s)))
            \<and> m_error s' = fdiv (vnorm (m_res s')) (m_rhs_norm s)"
    by (auto simp add: step_def Let_def)
next
  fix st x' s'
  assume "solve rhs x s = Some (st, x', s')"
  then show "st = Converged \<or> st = Exhausted"
    by (auto simp add: solve_def split: prod.splits if_splits dest: solve_loop_terminal)
qed

theorem step_makes_no_breakdown_test_witness:
  "(m_calcEigenvals (after_init [Fin 0, Fin 1] [Fin 0, Fin 0] breakdown_solver) = False)
   \<and> vdot (m_update (after_init [Fin 0, Fin 1] [Fin 0, Fin 0] breakdown_solver))
          (op_apply (m_mat (after_init [Fin 0, Fin 1] [Fin 0, Fin 0] breakdown_solver))
             (m_update (after_init [Fin 0, Fin 1] [Fin 0, Fin 0] breakdown_solver))) = Fin 0
   \<and> (\<exists>s'. step [Fin 0, Fin 0] (after_init [Fin 0, Fin 1] [Fin 0, Fin 0] breakdown_solver)
              = Some (False, [NaN, PInf], s')
            \<and> m_res s' = [NaN, NaN] \<and> m_error s' = NaN)
   \<and> (\<exists>x' s'. solve [Fin 0, Fin 1] [Fin 0, Fin 0] breakdown_solver = Some (Exhausted, x', s'))"
proof -
  let ?s = "after_init [Fin 0, Fin 1] [Fin 0, Fin 0] breakdown_solver"
  note v = breakdown_fields
  have h: "m_calcEigenvals ?s \<longrightarrow> m_delta ?s \<noteq> []" by (simp add: v)
  have d: "vdot (m_update ?s) (op_apply (m_mat ?s) (m_update ?s)) = Fin 0"
    using v(4) by (simp add: v(2) vdot_def)
  from step_makes_no_breakdown_test[where s = ?s and x = "[Fin 0, Fin 0]"] h
  obtain s' where st: "step [Fin 0, Fin 0] ?s
        = Some (fless (m_error s') (m_tol ?s),
                vadd [Fin 0, Fin 0] (vscale (fdiv (m_abs_new ?s) (Fin 0)) (m_update ?s)), s')"
    and r: "m_res s' = vsub (m_res ?s) (vscale (fdiv (m_abs_new ?s) (Fin 0)) (op_apply (m_mat ?s) (m_update ?s)))"
    and e: "m_error s' = fdiv (vnorm (m_res s')) (m_rhs_norm ?s)"
    unfolding Let_def d by blast
  from r v(4) have r': "m_res s' = [NaN, NaN]"
    by (simp add: v(1,2,3) vsub_def vscale_def fsub_def signed_inf_def)
  from e have e': "m_error s' = NaN"
    by (simp add: r' vnorm_def vdot_def)
  from st have a: "step [Fin 0, Fin 0] ?s = Some (False, [NaN, PInf], s')"
    by (simp add: e' v(1,2,5) vadd_def vscale_def signed_inf_def)
  have "map_option fst (solve [Fin 0, Fin 1] [Fin 0, Fin 0] breakdown_solver) = Some Exhausted"
    by (rule breakdown_run)
  then have b: "\<exists>x' s'. solve [Fin 0, Fin 1] [Fin 0, Fin 0] breakdown_solver = Some (Exhausted, x', s')"
    by auto
  from a r' e' b d v(7) show ?thesis by blast
qed

section \<open>Real vectors\<close>

lemma length_radd [simp]: "length (radd u v) = min (length u) (length v)"
  by (simp add: radd_def)

lemma length_rsub [simp]: "length (rsub u v) = min (length u) (length v)"
  by (simp add: rsub_def)

lemma length_rscale [simp]: "length (rscale c v) = length v"
  by (simp add: rscale_def)

lemma rdot_Nil [simp]: "rdot [] v = 0" "rdot u [] = 0"
  by (simp_all add: rdot_def)

lemma rdot_Cons [simp]: "rdot (a # u) (b # v) = a * b + rdot u v"
  by (simp add: rdot_def)

lemma radd_Cons [simp]: "radd (a # u) (b # v) = (a + b) # radd u v"
  by (simp add: radd_def)

lemma rsub_Cons [simp]: "rsub (a # u) (b # v) = (a - b) # rsub u v"
  by (simp add: rsub_def)

lemma rscale_Cons [simp]: "rscale c (a # u) = (c * a) # rscale c u"
  by (simp add: rscale_def)

lemma rscale_Nil [simp]: "rscale c [] = []"
  by (simp add: rscale_def)

lemma radd_Nil [simp]: "radd [] v = []" "radd u [] = []"
  by (simp_all add: radd_def)

lemma rsub_Nil [simp]: "rsub [] v = []" "rsub u [] = []"
  by (simp_all add: rsub_def)

lemma rdot_commute: "rdot u v = rdot v u"
proof (induction u arbitrary: v)
  case Nil
  show ?case by simp
next
  case (Cons a u)
  then show ?case by (cases v) (simp_all add: mult.commute)
qed

lemma rdot_radd_left:
  "length u = length v \<Longrightarrow> length v = length w \<Longrightarrow> rdot (radd u v) w = rdot u w + rdot v w"
  by (induction u v w rule: list_induct3) (simp_all add: algebra_simps)

lemma rdot_rsub_left:
  "length u = length v \<Longrightarrow> length v = length w \<Longrightarrow> rdot (rsub u v) w = rdot u w - rdot v w"
  by (induction u v w rule: list_induct3) (simp_all add: algebra_simps)

lemma rdot_rscale_left: "rdot (rscale c u) w = c * rdot u w"
proof (induction u arbitrary: w)
  case Nil
  show ?case by simp
next
  case (Cons a u)
  then show ?case by (cases w) (simp_all add: algebra_simps)
qed

lemma rdot_radd_right:
  "length u = length v \<Longrightarrow> length v = length w \<Longrightarrow> rdot w (radd u v) = rdot w u + rdot w v"
  using rdot_radd_left[of u v w] by (simp add: rdot_commute)

lemma rdot_rsub_right:
  "length u = length v \<Longrightarrow> length v = length w \<Longrightarrow> rdot w (rsub u v) = rdot w u - rdot w v"
  using rdot_rsub_left[of u v w] by (simp add: rdot_commute)

lemma rdot_rscale_right: "rdot w (rscale c u) = c * rdot w u"
  using rdot_rscale_left[of c u w] by (simp add: rdot_commute)

lemma rdot_self_nonneg: "0 \<le> rdot u u"
  by (induction u) simp_all

lemma rdot_self_zero_iff: "rdot u u = 0 \<longleftrightarrow> u = replicate (length u) 0"
proof (induction u)
  case Nil
  show ?case by simp
next
  case (Cons a u)
  have "a * a + rdot u u = 0 \<longleftrightarrow> a * a = 0 \<and> rdot u u = 0"
    using rdot_self_nonneg[of u] zero_le_square[of a] by linarith
  with Cons show ?case by simp
qed

lemma rdot_zero_left [simp]: "rdot (replicate n 0) w = 0"
proof (induction n arbitrary: w)
  case 0
  show ?case by simp
next
  case (Suc n)
  then show ?case by (cases w) simp_all
qed

lemma rdot_zero_right [simp]: "rdot w (replicate n 0) = 0"
  using rdot_zero_left[of n w] by (simp add: rdot_commute)

lemma rdot_nth: "length u = length v \<Longrightarrow> rdot u v = (\<Sum>i<length u. u ! i * v ! i)"
proof (induction u v rule: list_induct2)
  case Nil
  show ?case by simp
next
  case (Cons a u b v)
  have "(\<Sum>i<Suc (length u). (a # u) ! i * (b # v) ! i)
      = (a # u) ! 0 * (b # v) ! 0 + (\<Sum>i<length u. (a # u) ! Suc i * (b # v) ! Suc i)"
    by (rule sum.lessThan_Suc_shift)
  with Cons show ?case by simp
qed

text \<open>More vectors than coordinates: a nontrivial combination vanishes.\<close>

lemma linear_dependence:
  fixes a :: "'a \<Rightarrow> nat \<Rightarrow> real"
  assumes "finite S" and "n < card S"
  shows "\<exists>c. (\<exists>j\<in>S. c j \<noteq> 0) \<and> (\<forall>i<n. (\<Sum>j\<in>S. c j * a j i) = 0)"
  using assms
proof (induction n arbitrary: S a)
  case 0
  then obtain j where "j \<in> S" by (metis card.empty all_not_in_conv less_nat_zero_code)
  then show ?case by (intro exI[of _ "\<lambda>_. 1"]) auto
next
  case (Suc n)
  show ?case
  proof (cases "\<forall>j\<in>S. a j n = 0")
    case True
    from Suc.prems have "n < card S" by simp
    from Suc.IH[OF Suc.prems(1) this, of a] obtain c where
      cz: "(\<exists>j\<in>S. c j \<noteq> 0) \<and> (\<forall>i<n. (\<Sum>j\<in>S. c j * a j i) = 0)" ..
    then have c: "\<exists>j\<in>S. c j \<noteq> 0" and z: "\<forall>i<n. (\<Sum>j\<in>S. c j * a j i) = 0"
      by (rule conjunct1, rule conjunct2)
    have "(\<Sum>j\<in>S. c j * a j n) = 0" using True by simp
    with z have "\<forall>i<Suc n. (\<Sum>j\<in>S. c j * a j i) = 0" by (simp add: less_Suc_eq)
    with c show ?thesis by (intro exI[of _ c] conjI)
  next
    case False
    then obtain p where p: "p \<in> S" and ap: "a p n \<noteq> 0" by blast
    let ?S = "S - {p}"
    let ?a = "\<lambda>j i. a j i - (a j n / a p n) * a p i"
    have fin: "finite ?S" using Suc.prems(1) by simp
    have card: "n < card ?S" using Suc.prems p by simp
    from Suc.IH[OF fin card, of ?a] obtain c where
      cz: "(\<exists>j\<in>?S. c j \<noteq> 0) \<and> (\<forall>i<n. (\<Sum>j\<in>?S. c j * ?a j i) = 0)" ..
    then have c: "\<exists>j\<in>?S. c j \<noteq> 0" and z: "\<forall>i<n. (\<Sum>j\<in>?S. c j * ?a j i) = 0"
      by (rule conjunct1, rule conjunct2)
    let ?cp = "- (\<Sum>j\<in>?S. c j * (a j n / a p n))"
    let ?c = "\<lambda>j. if j = p then ?cp else c j"
    have comb: "(\<Sum>j\<in>S. ?c j * a j i) = (\<Sum>j\<in>?S. c j * ?a j i)" for i
    proof -
      have 1: "(\<Sum>j\<in>S. ?c j * a j i) = ?c p * a p i + (\<Sum>j\<in>?S. ?c j * a j i)"
        using Suc.prems(1) p by (rule sum.remove)
      have 2: "(\<Sum>j\<in>?S. ?c j * a j i) = (\<Sum>j\<in>?S. c j * a j i)"
        by (rule sum.cong) auto
      have "?c p = ?cp" by simp
      then have 3: "?c p * a p i = - (\<Sum>j\<in>?S. c j * (a j n / a p n) * a p i)"
        by (simp only: sum_distrib_right mult_minus_left)
      have "c j * ?a j i = c j * a j i - c j * (a j n / a p n) * a p i" for j
        by (simp only: right_diff_distrib mult.assoc)
      then have 4: "(\<Sum>j\<in>?S. c j * ?a j i)
          = (\<Sum>j\<in>?S. c j * a j i) - (\<Sum>j\<in>?S. c j * (a j n / a p n) * a p i)"
        by (simp only: sum_subtractf)
      show ?thesis unfolding 1 2 3 4 by linarith
    qed
    have "?a j n = 0" for j using ap by simp
    then have "(\<Sum>j\<in>?S. c j * ?a j n) = 0" by simp
    with z have "\<forall>i<Suc n. (\<Sum>j\<in>S. ?c j * a j i) = 0"
      unfolding comb by (simp add: less_Suc_eq)
    moreover from c have "\<exists>j\<in>S. ?c j \<noteq> 0" by auto
    ultimately show ?thesis by (intro exI[of _ ?c] conjI)
  qed
qed

lemma spd_length: "spd n A \<Longrightarrow> length u = n \<Longrightarrow> length (A u) = n"
  by (simp add: spd_def)

lemma spd_add: "spd n A \<Longrightarrow> length u = n \<Longrightarrow> length v = n \<Longrightarrow> A (radd u v) = radd (A u) (A v)"
  by (simp add: spd_def)

lemma spd_scale: "spd n A \<Longrightarrow> length u = n \<Longrightarrow> A (rscale c u) = rscale c (A u)"
  by (simp add: spd_def)

lemma spd_sym: "spd n A \<Longrightarrow> length u = n \<Longrightarrow> length v = n \<Longrightarrow> rdot (A u) v = rdot u (A v)"
  by (simp add: spd_def)

lemma spd_pos: "spd n A \<Longrightarrow> length u = n \<Longrightarrow> u \<noteq> replicate n 0 \<Longrightarrow> 0 < rdot u (A u)"
  by (simp add: spd_def)

lemma exact_step_sel:
  "ex_x (exact_step A M s)
     = radd (ex_x s) (rscale (ex_g s / rdot (ex_p s) (A (ex_p s))) (ex_p s))"
  "ex_r (exact_step A M s)
     = rsub (ex_r s) (rscale (ex_g s / rdot (ex_p s) (A (ex_p s))) (A (ex_p s)))"
  "ex_g (exact_step A M s) = rdot (ex_r (exact_step A M s)) (M (ex_r (exact_step A M s)))"
  "ex_p (exact_step A M s)
     = radd (M (ex_r (exact_step A M s)))
            (rscale (ex_g (exact_step A M s) / ex_g s) (ex_p s))"
  by (simp_all add: exact_step_def Let_def)

lemma exact_init_sel:
  "ex_x (exact_init A M b x) = x"
  "ex_r (exact_init A M b x) = rsub b (A x)"
  "ex_p (exact_init A M b x) = M (ex_r (exact_init A M b x))"
  "ex_g (exact_init A M b x) = rdot (ex_r (exact_init A M b x)) (M (ex_r (exact_init A M b x)))"
  by (simp_all add: exact_init_def Let_def)

lemma exact_lengths:
  assumes "spd n A" "spd n M" "length b = n" "length x = n"
  shows "length (ex_x (exact_iter A M b x k)) = n \<and> length (ex_r (exact_iter A M b x k)) = n
       \<and> length (ex_p (exact_iter A M b x k)) = n"
proof (induction k)
  case 0
  show ?case using assms by (simp add: exact_init_sel spd_length)
next
  case (Suc k)
  then show ?case using assms by (simp add: exact_step_sel spd_length)
qed

lemma exact_g: "ex_g (exact_iter A M b x k)
    = rdot (ex_r (exact_iter A M b x k)) (M (ex_r (exact_iter A M b x k)))"
  by (cases k) (simp_all add: exact_init_sel(4) exact_step_sel(3))

text \<open>The two recurrences, as equations between inner products.\<close>

lemma exact_r_dot:
  assumes "spd n A" "spd n M" "length b = n" "length x = n" "length w = n"
  shows "rdot (ex_r (exact_iter A M b x (Suc k))) w
       = rdot (ex_r (exact_iter A M b x k)) w
         - ex_g (exact_iter A M b x k)
             / rdot (ex_p (exact_iter A M b x k)) (A (ex_p (exact_iter A M b x k)))
           * rdot (A (ex_p (exact_iter A M b x k))) w"
proof -
  from exact_lengths[OF assms(1-4), of k]
  have l: "length (ex_r (exact_iter A M b x k)) = n" "length (ex_p (exact_iter A M b x k)) = n"
    by simp_all
  then have "length (A (ex_p (exact_iter A M b x k))) = n" using assms(1) by (simp add: spd_length)
  then show ?thesis using l assms(5)
    by (simp add: exact_step_sel(2) rdot_rsub_left rdot_rscale_left)
qed

lemma exact_p_dot:
  assumes "spd n A" "spd n M" "length b = n" "length x = n" "length w = n"
  shows "rdot (ex_p (exact_iter A M b x (Suc k))) w
       = rdot (M (ex_r (exact_iter A M b x (Suc k)))) w
         + ex_g (exact_iter A M b x (Suc k)) / ex_g (exact_iter A M b x k)
           * rdot (ex_p (exact_iter A M b x k)) w"
proof -
  from exact_lengths[OF assms(1-4)]
  have l: "length (ex_r (exact_iter A M b x (Suc k))) = n" "length (ex_p (exact_iter A M b x k)) = n"
    by blast+
  then have m: "length (M (ex_r (exact_iter A M b x (Suc k)))) = n"
    using assms(2) by (simp add: spd_length del: exact_iter.simps)
  have eq: "ex_p (exact_iter A M b x (Suc k))
      = radd (M (ex_r (exact_iter A M b x (Suc k))))
          (rscale (ex_g (exact_iter A M b x (Suc k)) / ex_g (exact_iter A M b x k))
             (ex_p (exact_iter A M b x k)))"
    by (simp only: exact_iter.simps exact_step_sel(4))
  show ?thesis
    by (subst eq) (simp add: rdot_radd_left rdot_rscale_left l m assms(5) del: exact_iter.simps)
qed

section \<open>Orthogonality of the residuals, conjugacy of the directions\<close>

declare exact_iter.simps [simp del]

lemma rdot_nonzero_right: "rdot u v \<noteq> 0 \<Longrightarrow> v \<noteq> replicate n 0"
  by auto

lemma cg_orth_0:
  assumes A: "spd n A" and M: "spd n M" and b: "length b = n" and x: "length x = n"
    and nz: "ex_r (exact_iter A M b x 0) \<noteq> replicate n 0"
  shows "cg_orth A M b x 0"
proof -
  let ?r = "ex_r (exact_iter A M b x 0)"
  let ?p = "ex_p (exact_iter A M b x 0)"
  let ?g = "ex_g (exact_iter A M b x 0)"
  from exact_lengths[OF A M b x, of 0] have lr: "length ?r = n" and lp: "length ?p = n"
    by simp_all
  have p: "?p = M ?r" by (simp add: exact_iter.simps exact_init_sel(3))
  have g: "?g = rdot ?r (M ?r)" by (rule exact_g)
  from spd_pos[OF M lr nz] g have gpos: "0 < ?g" by simp
  have rp: "rdot ?r ?p = ?g" using p g by simp
  with gpos have "?p \<noteq> replicate n 0" by (intro rdot_nonzero_right[of ?r]) simp
  from spd_pos[OF A lp this] have "0 < rdot ?p (A ?p)" .
  with gpos rp show ?thesis unfolding cg_orth_def by simp
qed

lemma cg_orth_Suc:
  assumes A: "spd n A" and M: "spd n M" and b: "length b = n" and x: "length x = n"
    and ih: "cg_orth A M b x k"
    and nz: "ex_r (exact_iter A M b x (Suc k)) \<noteq> replicate n 0"
  shows "cg_orth A M b x (Suc k)"
proof -
  let ?R = "\<lambda>j. ex_r (exact_iter A M b x j)"
  let ?P = "\<lambda>j. ex_p (exact_iter A M b x j)"
  let ?G = "\<lambda>j. ex_g (exact_iter A M b x j)"
  let ?D = "\<lambda>j. rdot (?P j) (A (?P j))"
  have lR: "length (?R j) = n" and lP: "length (?P j) = n" for j
    using exact_lengths[OF A M b x, of j] by simp_all
  have lAP: "length (A (?P j)) = n" for j using spd_length[OF A lP] .
  have lMR: "length (M (?R j)) = n" for j using spd_length[OF M lR] .
  note rdot_step = exact_r_dot[OF A M b x]
  note pdot_step = exact_p_dot[OF A M b x]
  from ih have pos: "0 < ?G j" "0 < ?D j" and diag: "rdot (?R j) (?P j) = ?G j" if "j \<le> k" for j
    using that unfolding cg_orth_def by blast+
  from ih have orth: "rdot (?R j) (?P i) = 0" "rdot (?P j) (A (?P i)) = 0"
      "rdot (?R j) (M (?R i)) = 0" if "j \<le> k" "i < j" for i j
    using that unfolding cg_orth_def by blast+
  \<comment> \<open>the new residual is orthogonal to every direction so far\<close>
  have a: "rdot (?R (Suc k)) (?P i) = 0" if "i \<le> k" for i
  proof (cases "i = k")
    case True
    have "rdot (A (?P k)) (?P k) = ?D k" by (rule rdot_commute)
    with rdot_step[where w = "?P k" and k = k, OF lP] diag[of k] pos(2)[of k] show ?thesis
      using True by simp
  next
    case False
    with that have ik: "i < k" by simp
    have "rdot (A (?P k)) (?P i) = rdot (?P k) (A (?P i))" by (rule spd_sym[OF A lP lP])
    with orth(2)[OF le_refl ik] have "rdot (A (?P k)) (?P i) = 0" by simp
    with rdot_step[where w = "?P i" and k = k, OF lP] orth(1)[OF le_refl ik] show ?thesis by simp
  qed
  have g': "?G (Suc k) = rdot (?R (Suc k)) (M (?R (Suc k)))" by (rule exact_g)
  from spd_pos[OF M lR nz] g' have gpos: "0 < ?G (Suc k)" by simp
  have c: "rdot (?R (Suc k)) (?P (Suc k)) = ?G (Suc k)"
  proof -
    have "rdot (?R (Suc k)) (?P (Suc k)) = rdot (?P (Suc k)) (?R (Suc k))" by (rule rdot_commute)
    also have "\<dots> = rdot (M (?R (Suc k))) (?R (Suc k))
        + ?G (Suc k) / ?G k * rdot (?P k) (?R (Suc k))"
      by (rule pdot_step[where w = "?R (Suc k)" and k = k, OF lR])
    also have "rdot (?P k) (?R (Suc k)) = rdot (?R (Suc k)) (?P k)" by (rule rdot_commute)
    also have "rdot (M (?R (Suc k))) (?R (Suc k)) = rdot (?R (Suc k)) (M (?R (Suc k)))"
      by (rule rdot_commute)
    finally show ?thesis using a[of k] g' by simp
  qed
  with gpos have "?P (Suc k) \<noteq> replicate n 0" by (intro rdot_nonzero_right[of "?R (Suc k)"]) simp
  from spd_pos[OF A lP this] have dpos: "0 < ?D (Suc k)" .
  \<comment> \<open>and to every preconditioned residual so far\<close>
  have e: "rdot (?R (Suc k)) (M (?R i)) = 0" if "i \<le> k" for i
  proof (cases i)
    case 0
    have "?P 0 = M (?R 0)" by (simp add: exact_iter.simps exact_init_sel(3))
    with a[of 0] 0 show ?thesis by simp
  next
    case (Suc m)
    with that have mk: "m \<le> k" "Suc m \<le> k" by simp_all
    have "rdot (?P (Suc m)) (?R (Suc k))
        = rdot (M (?R (Suc m))) (?R (Suc k)) + ?G (Suc m) / ?G m * rdot (?P m) (?R (Suc k))"
      by (rule pdot_step[where w = "?R (Suc k)" and k = m, OF lR])
    moreover have "rdot (?P (Suc m)) (?R (Suc k)) = 0"
      using a[OF mk(2)] by (simp add: rdot_commute)
    moreover have "rdot (?P m) (?R (Suc k)) = 0"
      using a[OF mk(1)] by (simp add: rdot_commute)
    ultimately have "rdot (M (?R (Suc m))) (?R (Suc k)) = 0" by simp
    then show ?thesis using Suc by (simp add: rdot_commute)
  qed
  \<comment> \<open>the new direction is conjugate to every direction so far\<close>
  have f: "rdot (?P (Suc k)) (A (?P i)) = 0" if "i \<le> k" for i
  proof -
    let ?z = "M (?R (Suc k))"
    let ?al = "?G i / ?D i"
    have al: "?al \<noteq> 0" using pos[OF that] by simp
    have s: "rdot (?R (Suc i)) ?z = rdot (?R i) ?z - ?al * rdot (A (?P i)) ?z"
      by (rule rdot_step[where w = "?z" and k = i, OF lMR])
    have "rdot (?R i) ?z = rdot (M (?R i)) (?R (Suc k))"
      by (rule spd_sym[OF M lR lR, symmetric])
    with e[OF that] have z1: "rdot (?R i) ?z = 0" by (simp add: rdot_commute)
    have split: "rdot (?P (Suc k)) (A (?P i))
        = rdot ?z (A (?P i)) + ?G (Suc k) / ?G k * rdot (?P k) (A (?P i))"
      by (rule pdot_step[where w = "A (?P i)" and k = k, OF lAP])
    show ?thesis
    proof (cases "i = k")
      case True
      from s z1 g' True have "?G k / ?D k * rdot (A (?P k)) ?z = - ?G (Suc k)" by simp
      then have "rdot (A (?P k)) ?z = - ?G (Suc k) * ?D k / ?G k"
        using pos[of k] by (simp add: field_simps)
      then have "rdot ?z (A (?P k)) = - ?G (Suc k) * ?D k / ?G k" by (simp add: rdot_commute)
      with split True pos[of k] show ?thesis by (simp add: field_simps)
    next
      case False
      with that have ik: "i < k" "Suc i \<le> k" by simp_all
      have "rdot (?R (Suc i)) ?z = rdot (M (?R (Suc i))) (?R (Suc k))"
        by (rule spd_sym[OF M lR lR, symmetric])
      with e[OF ik(2)] have "rdot (?R (Suc i)) ?z = 0" by (simp add: rdot_commute)
      with s z1 al have "rdot (A (?P i)) ?z = 0" by simp
      then have "rdot ?z (A (?P i)) = 0" by (simp add: rdot_commute)
      with split orth(2)[OF le_refl ik(1)] show ?thesis by simp
    qed
  qed
  have part1: "\<forall>j\<le>Suc k. 0 < ?G j \<and> 0 < ?D j \<and> rdot (?R j) (?P j) = ?G j"
  proof (intro allI impI)
    fix j assume j: "j \<le> Suc k"
    show "0 < ?G j \<and> 0 < ?D j \<and> rdot (?R j) (?P j) = ?G j"
    proof (cases "j = Suc k")
      case True
      with gpos dpos c show ?thesis by simp
    next
      case False
      with j have "j \<le> k" by simp
      with pos diag show ?thesis by simp
    qed
  qed
  have part2: "\<forall>j\<le>Suc k. \<forall>i<j. rdot (?R j) (?P i) = 0 \<and> rdot (?P j) (A (?P i)) = 0
      \<and> rdot (?R j) (M (?R i)) = 0"
  proof (intro allI impI)
    fix j i assume j: "j \<le> Suc k" and i: "i < j"
    show "rdot (?R j) (?P i) = 0 \<and> rdot (?P j) (A (?P i)) = 0 \<and> rdot (?R j) (M (?R i)) = 0"
    proof (cases "j = Suc k")
      case True
      with i have "i \<le> k" by simp
      with a e f True show ?thesis by simp
    next
      case False
      with j have "j \<le> k" by simp
      from orth[OF this i] show ?thesis by simp
    qed
  qed
  from part1 part2 show ?thesis unfolding cg_orth_def by (rule conjI)
qed

lemma cg_orth_all:
  assumes A: "spd n A" and M: "spd n M" and b: "length b = n" and x: "length x = n"
  shows "(\<forall>j\<le>k. ex_r (exact_iter A M b x j) \<noteq> replicate n 0) \<Longrightarrow> cg_orth A M b x k"
proof (induction k)
  case 0
  then show ?case by (intro cg_orth_0[OF A M b x]) simp
next
  case (Suc k)
  from Suc.prems have "\<forall>j\<le>k. ex_r (exact_iter A M b x j) \<noteq> replicate n 0" by simp
  then have o: "cg_orth A M b x k" by (rule Suc.IH)
  from Suc.prems have "ex_r (exact_iter A M b x (Suc k)) \<noteq> replicate n 0" by blast
  with o show ?case by (rule cg_orth_Suc[OF A M b x])
qed

section \<open>Termination and energy of the exact recurrence\<close>

lemma exists_zero_residual:
  assumes A: "spd n A" and M: "spd n M" and b: "length b = n" and x: "length x = n"
  shows "\<exists>k\<le>n. ex_r (exact_iter A M b x k) = replicate n 0"
proof (rule ccontr)
  let ?R = "\<lambda>j. ex_r (exact_iter A M b x j)"
  let ?G = "\<lambda>j. ex_g (exact_iter A M b x j)"
  assume "\<not> (\<exists>k\<le>n. ?R k = replicate n 0)"
  then have nz: "\<forall>j\<le>n. ?R j \<noteq> replicate n 0" by simp
  from cg_orth_all[OF A M b x nz] have o: "cg_orth A M b x n" .
  have lR: "length (?R j) = n" for j using exact_lengths[OF A M b x, of j] by simp
  have lMR: "length (M (?R j)) = n" for j using spd_length[OF M lR] .
  have "n < card {..n}" by simp
  from linear_dependence[OF finite_atMost this, of "\<lambda>j i. ?R j ! i"]
  obtain c where cz: "(\<exists>j\<in>{..n}. c j \<noteq> 0) \<and> (\<forall>i<n. (\<Sum>j\<in>{..n}. c j * ?R j ! i) = 0)" ..
  then have ex: "\<exists>j. j \<le> n \<and> c j \<noteq> 0" and comb: "\<And>i. i < n \<Longrightarrow> (\<Sum>j\<le>n. c j * ?R j ! i) = 0"
    by auto
  define m where "m = (LEAST j. j \<le> n \<and> c j \<noteq> 0)"
  from ex have m: "m \<le> n \<and> c m \<noteq> 0" unfolding m_def by (rule LeastI_ex)
  have least: "c j = 0" if "j < m" for j
  proof (rule ccontr)
    assume "c j \<noteq> 0"
    with that m have "j \<le> n \<and> c j \<noteq> 0" by simp
    then have "m \<le> j" unfolding m_def by (rule Least_le)
    with that show False by simp
  qed
  let ?z = "M (?R m)"
  have tm: "c j * rdot (?R j) ?z = (if j = m then c m * ?G m else 0)" if "j \<le> n" for j
  proof -
    consider "j < m" | "j = m" | "m < j" by linarith
    then show ?thesis
    proof cases
      case 1
      then show ?thesis using least by simp
    next
      case 2
      then show ?thesis using exact_g[of A M b x m] by simp
    next
      case 3
      from o that 3 have "rdot (?R j) ?z = 0" unfolding cg_orth_def by blast
      with 3 show ?thesis by simp
    qed
  qed
  have "(\<Sum>j\<le>n. c j * rdot (?R j) ?z) = (\<Sum>j\<le>n. if j = m then c m * ?G m else 0)"
    by (rule sum.cong) (simp_all add: tm)
  also have "\<dots> = c m * ?G m" using m by (simp add: sum.delta)
  finally have lhs: "(\<Sum>j\<le>n. c j * rdot (?R j) ?z) = c m * ?G m" .
  have "(\<Sum>j\<le>n. c j * rdot (?R j) ?z) = (\<Sum>j\<le>n. c j * (\<Sum>i<n. ?R j ! i * ?z ! i))"
    using rdot_nth[of "?R j" ?z for j] lR lMR by simp
  also have "\<dots> = (\<Sum>j\<le>n. \<Sum>i<n. ?z ! i * (c j * ?R j ! i))"
    by (simp add: sum_distrib_left mult_ac)
  also have "\<dots> = (\<Sum>i<n. \<Sum>j\<le>n. ?z ! i * (c j * ?R j ! i))"
    by (rule sum.swap)
  also have "\<dots> = (\<Sum>i<n. ?z ! i * (\<Sum>j\<le>n. c j * ?R j ! i))"
    by (simp add: sum_distrib_left)
  also have "\<dots> = 0" using comb by simp
  finally have "c m * ?G m = 0" using lhs by simp
  moreover from o m have "0 < ?G m" unfolding cg_orth_def by blast
  ultimately show False using m by simp
qed

text \<open>The residual of the recurrence is the residual of its iterate.\<close>

lemma rsub_radd_rscale:
  "length b = length y \<Longrightarrow> length y = length q \<Longrightarrow>
   rsub b (radd y (rscale a q)) = rsub (rsub b y) (rscale a q)"
  by (induction b y q rule: list_induct3) simp_all

lemma exact_residual:
  assumes A: "spd n A" and M: "spd n M" and b: "length b = n" and x: "length x = n"
  shows "ex_r (exact_iter A M b x k) = rsub b (A (ex_x (exact_iter A M b x k)))"
proof (induction k)
  case 0
  show ?case by (simp add: exact_iter.simps exact_init_sel)
next
  case (Suc k)
  let ?s = "exact_iter A M b x k"
  let ?al = "ex_g ?s / rdot (ex_p ?s) (A (ex_p ?s))"
  from exact_lengths[OF A M b x, of k]
  have lx: "length (ex_x ?s) = n" and lp: "length (ex_p ?s) = n" by simp_all
  have "A (ex_x (exact_iter A M b x (Suc k))) = A (radd (ex_x ?s) (rscale ?al (ex_p ?s)))"
    by (simp add: exact_iter.simps exact_step_sel(1))
  also have "\<dots> = radd (A (ex_x ?s)) (rscale ?al (A (ex_p ?s)))"
    using spd_add[OF A lx, of "rscale ?al (ex_p ?s)"] spd_scale[OF A lp, of ?al] lp by simp
  finally have "rsub b (A (ex_x (exact_iter A M b x (Suc k))))
      = rsub (rsub b (A (ex_x ?s))) (rscale ?al (A (ex_p ?s)))"
    using rsub_radd_rscale[of b "A (ex_x ?s)" "A (ex_p ?s)" ?al]
      spd_length[OF A lx] spd_length[OF A lp] b by simp
  with Suc show ?case by (simp add: exact_iter.simps exact_step_sel(2))
qed

lemma energy_step:
  assumes A: "spd n A" and b: "length b = n" and y: "length y = n" and p: "length p = n"
  shows "energy A b (radd y (rscale a p))
       = energy A b y - a * rdot (rsub b (A y)) p + a * a * rdot p (A p) / 2"
proof -
  have lA: "length (A y) = n" "length (A p) = n" using spd_length[OF A] y p by simp_all
  have "A (radd y (rscale a p)) = radd (A y) (rscale a (A p))"
    using spd_add[OF A y, of "rscale a p"] spd_scale[OF A p, of a] p by simp
  moreover have "rdot p (A y) = rdot y (A p)"
    using spd_sym[OF A p y] by (simp add: rdot_commute)
  moreover have "rdot (A y) p = rdot y (A p)"
    by (rule spd_sym[OF A y p])
  ultimately show ?thesis
    using y p b lA
    by (simp add: energy_def rdot_radd_left rdot_radd_right rdot_rscale_left rdot_rscale_right
        rdot_rsub_left algebra_simps)
qed

lemma exact_energy_decreases:
  assumes A: "spd n A" and M: "spd n M" and b: "length b = n" and x: "length x = n"
    and o: "cg_orth A M b x k"
  shows "energy A b (ex_x (exact_iter A M b x (Suc k))) \<le> energy A b (ex_x (exact_iter A M b x k))"
proof -
  let ?s = "exact_iter A M b x k"
  let ?d = "rdot (ex_p ?s) (A (ex_p ?s))"
  let ?g = "ex_g ?s"
  from exact_lengths[OF A M b x, of k]
  have lx: "length (ex_x ?s) = n" and lp: "length (ex_p ?s) = n" by simp_all
  from o have d: "0 < ?d" and g: "rdot (ex_r ?s) (ex_p ?s) = ?g" unfolding cg_orth_def by blast+
  have "energy A b (ex_x (exact_iter A M b x (Suc k)))
      = energy A b (ex_x ?s) - (?g / ?d) * rdot (rsub b (A (ex_x ?s))) (ex_p ?s)
          + (?g / ?d) * (?g / ?d) * ?d / 2"
    using energy_step[OF A b lx lp, of "?g / ?d"]
    by (simp add: exact_iter.simps exact_step_sel(1))
  also have "rsub b (A (ex_x ?s)) = ex_r ?s" by (rule exact_residual[OF A M b x, symmetric])
  finally have "energy A b (ex_x (exact_iter A M b x (Suc k)))
      = energy A b (ex_x ?s) - ?g * ?g / ?d / 2"
    using d g by (simp add: field_simps)
  moreover have "0 \<le> ?g * ?g / ?d / 2" using d by simp
  ultimately show ?thesis by linarith
qed

section \<open>The solver follows the exact recurrence\<close>

lemma vadd_Fin: "vadd (map Fin u) (map Fin v) = map Fin (radd u v)"
  by (simp add: vadd_def radd_def zip_map_map map_zip_map split_def) 

lemma vsub_Fin: "vsub (map Fin u) (map Fin v) = map Fin (rsub u v)"
  by (simp add: vsub_def rsub_def fsub_def zip_map_map split_def)

lemma vscale_Fin: "vscale (Fin c) (map Fin v) = map Fin (rscale c v)"
  by (simp add: vscale_def rscale_def)

lemma foldl_fadd_Fin:
  "foldl fadd (Fin a) (map2 fmul (map Fin u) (map Fin v)) = Fin (a + rdot u v)"
proof (induction u arbitrary: a v)
  case Nil
  show ?case by simp
next
  case (Cons c u)
  then show ?case by (cases v) (simp_all add: add.assoc)
qed

lemma vdot_Fin: "vdot (map Fin u) (map Fin v) = Fin (rdot u v)"
  using foldl_fadd_Fin[of 0 u v] by (simp add: vdot_def)

lemma vnorm_Fin: "vnorm (map Fin u) = Fin (sqrt (rdot u u))"
  using rdot_self_nonneg[of u] by (simp add: vnorm_def vdot_Fin)

lemma real_operator_apply:
  "real_operator n A A' \<Longrightarrow> length u = n \<Longrightarrow> op_apply A (map Fin u) = map Fin (A' u)"
  by (simp add: real_operator_def)

lemma step_fields:
  assumes "m_calcEigenvals s \<longrightarrow> m_delta s \<noteq> []"
  shows "\<exists>s'. step x s
            = Some (fless (fdiv (vnorm (step_residual s)) (m_rhs_norm s)) (m_tol s),
                    vadd x (vscale (step_alpha s) (m_update s)), s')
          \<and> m_mat s' = m_mat s \<and> m_precond s' = m_precond s \<and> m_rhs_norm s' = m_rhs_norm s
          \<and> m_tol s' = m_tol s \<and> m_num_iter s' = m_num_iter s \<and> m_max_iters s' = m_max_iters s
          \<and> m_calcEigenvals s' = m_calcEigenvals s \<and> (m_calcEigenvals s \<longrightarrow> m_delta s' \<noteq> [])
          \<and> m_res s' = step_residual s
          \<and> (\<not> fless (fdiv (vnorm (step_residual s)) (m_rhs_norm s)) (m_tol s) \<longrightarrow>
                m_abs_new s' = vdot (step_residual s) (op_apply (m_precond s) (step_residual s))
              \<and> m_update s'
                  = vadd (op_apply (m_precond s) (step_residual s))
                      (vscale (fdiv (vdot (step_residual s)
                                       (op_apply (m_precond s) (step_residual s)))
                                    (m_abs_new s))
                         (m_update s)))"
  using assms by (auto simp add: step_def Let_def step_alpha_def step_residual_def)

lemma step_exact:
  assumes rdy: "cg_ready n A' M' rho t s" and A: "spd n A'" and M: "spd n M'"
    and v: "exact_view s x e"
    and lx: "length (ex_x e) = n" and lr: "length (ex_r e) = n" and lp: "length (ex_p e) = n"
    and d: "rdot (ex_p e) (A' (ex_p e)) \<noteq> 0" and rho: "rho \<noteq> 0"
  shows "\<exists>s'. step x s
            = Some (sqrt (rdot (ex_r (exact_step A' M' e)) (ex_r (exact_step A' M' e))) / rho < t,
                    map Fin (ex_x (exact_step A' M' e)), s')
          \<and> cg_ready n A' M' rho t s'
          \<and> m_num_iter s' = m_num_iter s \<and> m_max_iters s' = m_max_iters s
          \<and> m_res s' = map Fin (ex_r (exact_step A' M' e))
          \<and> (\<not> sqrt (rdot (ex_r (exact_step A' M' e)) (ex_r (exact_step A' M' e))) / rho < t
               \<longrightarrow> ex_g e \<noteq> 0
               \<longrightarrow> exact_view s' (map Fin (ex_x (exact_step A' M' e))) (exact_step A' M' e))"
proof -
  let ?q = "A' (ex_p e)"
  let ?al = "ex_g e / rdot (ex_p e) ?q"
  let ?e' = "exact_step A' M' e"
  let ?c = "sqrt (rdot (ex_r ?e') (ex_r ?e')) / rho < t"
  from rdy have opA: "real_operator n (m_mat s) A'" and opM: "real_operator n (m_precond s) M'"
    and rn: "m_rhs_norm s = Fin rho" and tol: "m_tol s = Fin t"
    and tr: "m_calcEigenvals s \<longrightarrow> m_delta s \<noteq> []"
    by (simp_all add: cg_ready_def)
  from v have vx: "x = map Fin (ex_x e)" and vr: "m_res s = map Fin (ex_r e)"
    and vp: "m_update s = map Fin (ex_p e)" and vg: "m_abs_new s = Fin (ex_g e)"
    by (simp_all add: exact_view_def)
  have tmp: "op_apply (m_mat s) (map Fin (ex_p e)) = map Fin ?q"
    by (rule real_operator_apply[OF opA lp])
  have alpha: "step_alpha s = Fin ?al"
    unfolding step_alpha_def vp vg tmp vdot_Fin using d by simp
  have x': "vadd x (vscale (step_alpha s) (m_update s)) = map Fin (ex_x ?e')"
    unfolding alpha vx vp vscale_Fin vadd_Fin by (simp add: exact_step_sel(1))
  have r': "step_residual s = map Fin (ex_r ?e')"
    unfolding step_residual_def alpha vr vp tmp vscale_Fin vsub_Fin
    by (simp add: exact_step_sel(2))
  have lr': "length (ex_r ?e') = n"
    using lr lp spd_length[OF A lp] by (simp add: exact_step_sel(2))
  have conv: "fless (fdiv (vnorm (step_residual s)) (m_rhs_norm s)) (m_tol s) = ?c"
    unfolding r' rn tol vnorm_Fin using rho by simp
  have z: "op_apply (m_precond s) (map Fin (ex_r ?e')) = map Fin (M' (ex_r ?e'))"
    by (rule real_operator_apply[OF opM lr'])
  have g': "vdot (step_residual s) (op_apply (m_precond s) (step_residual s)) = Fin (ex_g ?e')"
    unfolding r' z vdot_Fin by (simp add: exact_step_sel(3))
  have p': "vadd (op_apply (m_precond s) (step_residual s))
                      (vscale (fdiv (vdot (step_residual s)
                                       (op_apply (m_precond s) (step_residual s)))
                                    (m_abs_new s))
                         (m_update s)) = map Fin (ex_p ?e')" if "ex_g e \<noteq> 0"
  proof -
    have "fdiv (Fin (ex_g ?e')) (Fin (ex_g e)) = Fin (ex_g ?e' / ex_g e)" using that by simp
    then show ?thesis
      unfolding g' vg vp unfolding r' z by (simp add: vscale_Fin vadd_Fin exact_step_sel(4))
  qed
  from step_fields[OF tr, of x] obtain s' where
    st: "step x s = Some (fless (fdiv (vnorm (step_residual s)) (m_rhs_norm s)) (m_tol s),
                    vadd x (vscale (step_alpha s) (m_update s)), s')"
    and cfg: "m_mat s' = m_mat s" "m_precond s' = m_precond s" "m_rhs_norm s' = m_rhs_norm s"
      "m_tol s' = m_tol s" "m_num_iter s' = m_num_iter s" "m_max_iters s' = m_max_iters s"
      "m_calcEigenvals s' = m_calcEigenvals s" "m_calcEigenvals s \<longrightarrow> m_delta s' \<noteq> []"
    and res: "m_res s' = step_residual s"
    and upd: "\<not> fless (fdiv (vnorm (step_residual s)) (m_rhs_norm s)) (m_tol s) \<longrightarrow>
                m_abs_new s' = vdot (step_residual s) (op_apply (m_precond s) (step_residual s))
              \<and> m_update s'
                  = vadd (op_apply (m_precond s) (step_residual s))
                      (vscale (fdiv (vdot (step_residual s)
                                       (op_apply (m_precond s) (step_residual s)))
                                    (m_abs_new s))
                         (m_update s))"
    by blast
  have 1: "step x s = Some (?c, map Fin (ex_x ?e'), s')"
    using st unfolding conv x' .
  have 2: "cg_ready n A' M' rho t s'"
    using cfg opA opM rn tol by (simp add: cg_ready_def)
  have 3: "exact_view s' (map Fin (ex_x ?e')) ?e'" if nc: "\<not> ?c" and gz: "ex_g e \<noteq> 0"
  proof -
    from upd[unfolded conv] nc
    have a: "m_abs_new s' = vdot (step_residual s) (op_apply (m_precond s) (step_residual s))"
      and u: "m_update s'
                  = vadd (op_apply (m_precond s) (step_residual s))
                      (vscale (fdiv (vdot (step_residual s)
                                       (op_apply (m_precond s) (step_residual s)))
                                    (m_abs_new s))
                         (m_update s))"
      by blast+
    from a have a': "m_abs_new s' = Fin (ex_g ?e')" unfolding g' .
    from u have u': "m_update s' = map Fin (ex_p ?e')" unfolding p'[OF gz] .
    from res have r'': "m_res s' = map Fin (ex_r ?e')" unfolding r' .
    from a' u' r'' show ?thesis unfolding exact_view_def by simp
  qed
  have 4: "m_res s' = map Fin (ex_r ?e')" using res unfolding r' .
  have 5: "\<not> ?c \<longrightarrow> ex_g e \<noteq> 0 \<longrightarrow> exact_view s' (map Fin (ex_x ?e')) ?e'"
    using 3 by (intro impI)
  show ?thesis
    by (rule exI[of _ s']) (intro conjI 1 2 cfg(5) cfg(6) 4 5)
qed

lemma init_zero_rhs:
  assumes "feq (Fin 0) (vnorm rhs)"
  shows "\<exists>s'. initIteration rhs x s = (True, replicate (length rhs) (Fin 0), s')
           \<and> m_num_iter s' = m_num_iter s"
  using assms by (auto simp add: initIteration_def Base_initIteration_def Let_def)

lemma init_fields:
  assumes "\<not> feq (Fin 0) (vnorm rhs)"
  shows "\<exists>s'. initIteration rhs x s
            = (fless (fdiv (vnorm (vsub rhs (op_apply (m_mat s) x))) (vnorm rhs)) (m_tol s), x, s')
          \<and> m_mat s' = m_mat s \<and> m_precond s' = m_precond s \<and> m_rhs_norm s' = vnorm rhs
          \<and> m_tol s' = m_tol s \<and> m_num_iter s' = m_num_iter s \<and> m_max_iters s' = m_max_iters s
          \<and> (m_calcEigenvals s' \<longrightarrow> m_delta s' \<noteq> [])
          \<and> m_res s' = vsub rhs (op_apply (m_mat s) x)
          \<and> (\<not> fless (fdiv (vnorm (vsub rhs (op_apply (m_mat s) x))) (vnorm rhs)) (m_tol s) \<longrightarrow>
                m_update s' = op_apply (m_precond s) (vsub rhs (op_apply (m_mat s) x))
              \<and> m_abs_new s'
                  = vdot (vsub rhs (op_apply (m_mat s) x))
                      (op_apply (m_precond s) (vsub rhs (op_apply (m_mat s) x))))"
  using assms by (auto simp add: initIteration_def Base_initIteration_def Let_def)

lemma init_exact:
  assumes opA: "real_operator n (m_mat s) A'" and opM: "real_operator n (m_precond s) M'"
    and A: "spd n A'" and M: "spd n M'" and tol: "m_tol s = Fin t"
    and b: "length b = n" and x: "length x = n" and nz: "rdot b b \<noteq> 0"
  shows "\<exists>s'. initIteration (map Fin b) (map Fin x) s
            = (sqrt (rdot (ex_r (exact_init A' M' b x)) (ex_r (exact_init A' M' b x)))
                 / sqrt (rdot b b) < t, map Fin x, s')
          \<and> cg_ready n A' M' (sqrt (rdot b b)) t s'
          \<and> m_num_iter s' = m_num_iter s \<and> m_max_iters s' = m_max_iters s
          \<and> (\<not> sqrt (rdot (ex_r (exact_init A' M' b x)) (ex_r (exact_init A' M' b x)))
                 / sqrt (rdot b b) < t
               \<longrightarrow> exact_view s' (map Fin x) (exact_init A' M' b x))"
proof -
  let ?e = "exact_init A' M' b x"
  let ?rho = "sqrt (rdot b b)"
  let ?c = "sqrt (rdot (ex_r ?e) (ex_r ?e)) / ?rho < t"
  have rho: "?rho \<noteq> 0" using nz by simp
  have nf: "\<not> feq (Fin 0) (vnorm (map Fin b))"
    unfolding vnorm_Fin using rho by (simp add: feq_def)
  have ax: "op_apply (m_mat s) (map Fin x) = map Fin (A' x)"
    by (rule real_operator_apply[OF opA x])
  have r: "vsub (map Fin b) (op_apply (m_mat s) (map Fin x)) = map Fin (ex_r ?e)"
    unfolding ax vsub_Fin by (simp add: exact_init_sel(2))
  have lr: "length (ex_r ?e) = n"
    using b spd_length[OF A x] by (simp add: exact_init_sel(2))
  have conv: "fless (fdiv (vnorm (vsub (map Fin b) (op_apply (m_mat s) (map Fin x))))
                (vnorm (map Fin b))) (m_tol s) = ?c"
    unfolding r tol vnorm_Fin using rho by simp
  have z: "op_apply (m_precond s) (map Fin (ex_r ?e)) = map Fin (ex_p ?e)"
    using real_operator_apply[OF opM lr] by (simp add: exact_init_sel(3))
  have g: "vdot (map Fin (ex_r ?e)) (map Fin (ex_p ?e)) = Fin (ex_g ?e)"
    unfolding vdot_Fin by (simp add: exact_init_sel(3,4))
  from init_fields[OF nf, of "map Fin x" s] obtain s' where
    i: "initIteration (map Fin b) (map Fin x) s
            = (fless (fdiv (vnorm (vsub (map Fin b) (op_apply (m_mat s) (map Fin x))))
                  (vnorm (map Fin b))) (m_tol s), map Fin x, s')"
    and cfg: "m_mat s' = m_mat s" "m_precond s' = m_precond s" "m_rhs_norm s' = vnorm (map Fin b)"
      "m_tol s' = m_tol s" "m_num_iter s' = m_num_iter s" "m_max_iters s' = m_max_iters s"
      "m_calcEigenvals s' \<longrightarrow> m_delta s' \<noteq> []"
    and res: "m_res s' = vsub (map Fin b) (op_apply (m_mat s) (map Fin x))"
    and upd: "\<not> fless (fdiv (vnorm (vsub (map Fin b) (op_apply (m_mat s) (map Fin x))))
                  (vnorm (map Fin b))) (m_tol s) \<longrightarrow>
                m_update s' = op_apply (m_precond s) (vsub (map Fin b) (op_apply (m_mat s) (map Fin x)))
              \<and> m_abs_new s'
                  = vdot (vsub (map Fin b) (op_apply (m_mat s) (map Fin x)))
                      (op_apply (m_precond s) (vsub (map Fin b) (op_apply (m_mat s) (map Fin x))))"
    by blast
  have 1: "initIteration (map Fin b) (map Fin x) s = (?c, map Fin x, s')"
    using i unfolding conv .
  have 2: "cg_ready n A' M' ?rho t s'"
    using cfg opA opM tol by (simp add: cg_ready_def vnorm_Fin)
  have 3: "\<not> ?c \<longrightarrow> exact_view s' (map Fin x) ?e"
  proof
    assume nc: "\<not> ?c"
    from upd[unfolded conv, unfolded r z g] nc
    have "m_update s' = map Fin (ex_p ?e)" and "m_abs_new s' = Fin (ex_g ?e)" by blast+
    moreover from res have "m_res s' = map Fin (ex_r ?e)" unfolding r .
    ultimately show "exact_view s' (map Fin x) ?e"
      unfolding exact_view_def by (simp add: exact_init_sel(1))
  qed
  show ?thesis
    by (rule exI[of _ s']) (intro conjI 1 2 cfg(5) cfg(6) 3)
qed

lemma converged_if_zero:
  assumes "r = replicate n 0" and "0 < t" and "rho \<noteq> 0"
  shows "sqrt (rdot r r) / rho < t"
  using assms by simp

lemma solve_loop_exact:
  assumes A: "spd n A'" and M: "spd n M'" and b: "length b = n" and x: "length x = n"
    and t: "0 < t" and rho: "rho \<noteq> 0"
    and zero: "ex_r (exact_iter A' M' b x K) = replicate n 0"
    and nz: "\<forall>j<K. ex_r (exact_iter A' M' b x j) \<noteq> replicate n 0"
  shows "cg_ready n A' M' rho t s \<Longrightarrow> exact_view s y (exact_iter A' M' b x k) \<Longrightarrow> k < K
      \<Longrightarrow> K - k \<le> fuel
      \<Longrightarrow> \<exists>y' s'. solve_loop fuel y s = Some (Converged, y', s')
             \<and> m_num_iter s' \<le> m_num_iter s + (K - k)"
proof (induction fuel arbitrary: k y s)
  case 0
  then show ?case by simp
next
  case (Suc fuel)
  let ?e = "exact_iter A' M' b x k"
  let ?e' = "exact_iter A' M' b x (Suc k)"
  let ?c = "sqrt (rdot (ex_r ?e') (ex_r ?e')) / rho < t"
  from nz Suc.prems(3) have "\<forall>j\<le>k. ex_r (exact_iter A' M' b x j) \<noteq> replicate n 0" by simp
  from cg_orth_all[OF A M b x this] have o: "cg_orth A' M' b x k" .
  then have d: "rdot (ex_p ?e) (A' (ex_p ?e)) \<noteq> 0" and g: "ex_g ?e \<noteq> 0"
    unfolding cg_orth_def by fastforce+
  from exact_lengths[OF A M b x, of k]
  have lx: "length (ex_x ?e) = n" and lr: "length (ex_r ?e) = n" and lp: "length (ex_p ?e) = n"
    by simp_all
  have e': "exact_step A' M' ?e = ?e'" by (simp add: exact_iter.simps)
  from step_exact[OF Suc.prems(1) A M Suc.prems(2) lx lr lp d rho, unfolded e']
  obtain s' where st: "step y s = Some (?c, map Fin (ex_x ?e'), s')"
    and rdy: "cg_ready n A' M' rho t s'"
    and ni: "m_num_iter s' = m_num_iter s"
    and vw: "\<not> ?c \<longrightarrow> ex_g ?e \<noteq> 0 \<longrightarrow> exact_view s' (map Fin (ex_x ?e')) ?e'"
    by blast
  let ?s = "s'\<lparr>m_num_iter := m_num_iter s' + 1\<rparr>"
  show ?case
  proof (cases ?c)
    case True
    with st have "solve_loop (Suc fuel) y s = Some (Converged, map Fin (ex_x ?e'), ?s)" by simp
    moreover have "m_num_iter ?s \<le> m_num_iter s + (K - k)" using ni Suc.prems(3) by simp
    ultimately show ?thesis by (intro exI conjI)
  next
    case False
    have "ex_r ?e' \<noteq> replicate n 0"
    proof
      assume "ex_r ?e' = replicate n 0"
      from converged_if_zero[OF this t rho] False show False by simp
    qed
    with zero have "Suc k \<noteq> K" by auto
    with Suc.prems(3) have k': "Suc k < K" by simp
    from rdy have rdy': "cg_ready n A' M' rho t ?s" by (simp add: cg_ready_def)
    from vw False g have "exact_view s' (map Fin (ex_x ?e')) ?e'" by simp
    then have vw': "exact_view ?s (map Fin (ex_x ?e')) ?e'" by (simp add: exact_view_def)
    from Suc.prems(4) have fuel: "K - Suc k \<le> fuel" by simp
    from Suc.IH[OF rdy' vw' k' fuel] obtain y' s'' where
      l: "solve_loop fuel (map Fin (ex_x ?e')) ?s = Some (Converged, y', s'')"
      and n': "m_num_iter s'' \<le> m_num_iter ?s + (K - Suc k)" by blast
    from st False l have "solve_loop (Suc fuel) y s = Some (Converged, y', s'')" by simp
    moreover from n' ni k' have "m_num_iter s'' \<le> m_num_iter s + (K - k)" by simp
    ultimately show ?thesis by (intro exI conjI)
  qed
qed

lemma cg_converges:
  assumes opA: "real_operator n (m_mat s) A'" and opM: "real_operator n (m_precond s) M'"
    and A: "spd n A'" and M: "spd n M'"
    and b: "length b = n" and x: "length x = n" and tol: "m_tol s = Fin t" and t: "0 < t"
    and cap: "n \<le> m_max_iters s"
  shows "\<exists>x' s'. solve (map Fin b) (map Fin x) s = Some (Converged, x', s') \<and> m_num_iter s' \<le> n"
proof (cases "rdot b b = 0")
  case True
  then have "feq (Fin 0) (vnorm (map Fin b))" by (simp add: vnorm_Fin feq_def)
  from init_zero_rhs[OF this, of "map Fin x" "s\<lparr>m_num_iter := 0\<rparr>"] show ?thesis
    by (auto simp add: solve_def)
next
  case False
  let ?s0 = "s\<lparr>m_num_iter := 0\<rparr>"
  let ?rho = "sqrt (rdot b b)"
  let ?R = "\<lambda>j. ex_r (exact_iter A' M' b x j)"
  let ?c = "sqrt (rdot (?R 0) (?R 0)) / ?rho < t"
  have rho: "?rho \<noteq> 0" using False by simp
  have opA0: "real_operator n (m_mat ?s0) A'" and opM0: "real_operator n (m_precond ?s0) M'"
    and tol0: "m_tol ?s0 = Fin t"
    using opA opM tol by simp_all
  have e0: "exact_init A' M' b x = exact_iter A' M' b x 0" by (simp add: exact_iter.simps)
  from init_exact[OF opA0 opM0 A M tol0 b x False, unfolded e0]
  obtain s1 where i: "initIteration (map Fin b) (map Fin x) ?s0 = (?c, map Fin x, s1)"
    and rdy: "cg_ready n A' M' ?rho t s1"
    and ni: "m_num_iter s1 = 0" and mi: "m_max_iters s1 = m_max_iters s"
    and vw: "\<not> ?c \<longrightarrow> exact_view s1 (map Fin x) (exact_iter A' M' b x 0)"
    by auto
  show ?thesis
  proof (cases ?c)
    case True
    with i ni show ?thesis by (simp add: solve_def)
  next
    case nc: False
    from exists_zero_residual[OF A M b x] have ex: "\<exists>k. k \<le> n \<and> ?R k = replicate n 0" by blast
    define K where "K = (LEAST k. k \<le> n \<and> ?R k = replicate n 0)"
    from ex have K: "K \<le> n \<and> ?R K = replicate n 0" unfolding K_def by (rule LeastI_ex)
    have least: "?R j \<noteq> replicate n 0" if "j < K" for j
    proof
      assume "?R j = replicate n 0"
      with that K have "j \<le> n \<and> ?R j = replicate n 0" by simp
      then have "K \<le> j" unfolding K_def by (rule Least_le)
      with that show False by simp
    qed
    have "?R 0 \<noteq> replicate n 0"
    proof
      assume "?R 0 = replicate n 0"
      from converged_if_zero[OF this t rho] nc show False by simp
    qed
    with K have K0: "0 < K" by (cases K) auto
    from vw nc have vw0: "exact_view s1 (map Fin x) (exact_iter A' M' b x 0)" by simp
    from K cap mi have fuel: "K - 0 \<le> m_max_iters s1" by simp
    from K have zero: "?R K = replicate n 0" by simp
    from least have nz: "\<forall>j<K. ?R j \<noteq> replicate n 0" by simp
    from solve_loop_exact[OF A M b x t rho zero nz rdy vw0 K0 fuel]
    obtain y' s' where l: "solve_loop (m_max_iters s1) (map Fin x) s1 = Some (Converged, y', s')"
      and n': "m_num_iter s' \<le> m_num_iter s1 + (K - 0)" by blast
    from i nc l have "solve (map Fin b) (map Fin x) s = Some (Converged, y', s')"
      by (simp add: solve_def)
    moreover from n' ni K have "m_num_iter s' \<le> n" by simp
    ultimately show ?thesis by (intro exI conjI)
  qed
qed

lemma venergy_Fin:
  assumes "real_operator n A A'" and "length y = n"
  shows "venergy A (map Fin b) (map Fin y) = Fin (energy A' b y)"
  using real_operator_apply[OF assms]
  by (simp add: venergy_def energy_def vdot_Fin fsub_def)

lemma fle_Fin: "fle (Fin a) (Fin b) \<longleftrightarrow> a \<le> b"
  by (auto simp add: fle_def feq_def)

lemma iterates_from_Cons: "\<exists>ys. iterates_from stp k y s = y # ys"
  by (cases k) simp_all

lemma iterates_energy:
  assumes A: "spd n A'" and M: "spd n M'" and b: "length b = n" and x: "length x = n"
    and t: "0 < t" and rho: "rho \<noteq> 0" and op: "real_operator n Aop A'"
  shows "cg_ready n A' M' rho t s \<Longrightarrow> exact_view s y (exact_iter A' M' b x j)
      \<Longrightarrow> cg_orth A' M' b x j
      \<Longrightarrow> successively (energy_not_above Aop (map Fin b)) (iterates_from step fuel y s)"
proof (induction fuel arbitrary: j y s)
  case 0
  show ?case by simp
next
  case (Suc fuel)
  let ?e = "exact_iter A' M' b x j"
  let ?e' = "exact_iter A' M' b x (Suc j)"
  let ?c = "sqrt (rdot (ex_r ?e') (ex_r ?e')) / rho < t"
  let ?y' = "map Fin (ex_x ?e')"
  from Suc.prems(3) have d: "rdot (ex_p ?e) (A' (ex_p ?e)) \<noteq> 0" and g: "ex_g ?e \<noteq> 0"
    unfolding cg_orth_def by fastforce+
  have lx: "length (ex_x (exact_iter A' M' b x i)) = n"
    and lr: "length (ex_r (exact_iter A' M' b x i)) = n"
    and lp: "length (ex_p (exact_iter A' M' b x i)) = n" for i
    using exact_lengths[OF A M b x, of i] by simp_all
  have e': "exact_step A' M' ?e = ?e'" by (simp add: exact_iter.simps)
  from step_exact[OF Suc.prems(1) A M Suc.prems(2) lx lr lp d rho, unfolded e']
  obtain s' where st: "step y s = Some (?c, ?y', s')"
    and rdy: "cg_ready n A' M' rho t s'"
    and vw: "\<not> ?c \<longrightarrow> ex_g ?e \<noteq> 0 \<longrightarrow> exact_view s' ?y' ?e'"
    by blast
  from Suc.prems(2) have y: "y = map Fin (ex_x ?e)" by (simp add: exact_view_def)
  have "energy A' b (ex_x ?e') \<le> energy A' b (ex_x ?e)"
    by (rule exact_energy_decreases[OF A M b x Suc.prems(3)])
  then have E: "energy_not_above Aop (map Fin b) y ?y'"
    unfolding energy_not_above_def y venergy_Fin[OF op lx] fle_Fin .
  show ?case
  proof (cases ?c)
    case True
    with st E show ?thesis by simp
  next
    case False
    have "ex_r ?e' \<noteq> replicate n 0"
    proof
      assume "ex_r ?e' = replicate n 0"
      from converged_if_zero[OF this t rho] False show False by simp
    qed
    from cg_orth_Suc[OF A M b x Suc.prems(3) this] have o': "cg_orth A' M' b x (Suc j)" .
    from vw False g have vw': "exact_view s' ?y' ?e'" by simp
    from Suc.IH[OF rdy vw' o']
    have IH: "successively (energy_not_above Aop (map Fin b)) (iterates_from step fuel ?y' s')" .
    obtain ys where ys: "iterates_from step fuel ?y' s' = ?y' # ys"
      using iterates_from_Cons by blast
    from st False have "iterates_from step (Suc fuel) y s = y # ?y' # ys"
      by (simp add: ys)
    with IH E show ?thesis by (simp add: ys)
  qed
qed

lemma energy_monotone:
  assumes opA: "real_operator n (m_mat s) A'" and opM: "real_operator n (m_precond s) M'"
    and A: "spd n A'" and M: "spd n M'"
    and b: "length b = n" and x: "length x = n" and tol: "m_tol s = Fin t" and t: "0 < t"
  shows "successively (energy_not_above (m_mat s) (map Fin b))
           (iterate_sequence initIteration step k (map Fin b) (map Fin x) s)"
proof (cases "rdot b b = 0")
  case True
  then have "feq (Fin 0) (vnorm (map Fin b))" by (simp add: vnorm_Fin feq_def)
  from init_zero_rhs[OF this, of "map Fin x" s] show ?thesis
    by (auto simp add: iterate_sequence_def)
next
  case False
  let ?rho = "sqrt (rdot b b)"
  let ?R = "\<lambda>j. ex_r (exact_iter A' M' b x j)"
  let ?c = "sqrt (rdot (?R 0) (?R 0)) / ?rho < t"
  have rho: "?rho \<noteq> 0" using False by simp
  have e0: "exact_init A' M' b x = exact_iter A' M' b x 0" by (simp add: exact_iter.simps)
  from init_exact[OF opA opM A M tol b x False, unfolded e0]
  obtain s1 where i: "initIteration (map Fin b) (map Fin x) s = (?c, map Fin x, s1)"
    and rdy: "cg_ready n A' M' ?rho t s1"
    and vw: "\<not> ?c \<longrightarrow> exact_view s1 (map Fin x) (exact_iter A' M' b x 0)"
    by auto
  show ?thesis
  proof (cases ?c)
    case True
    with i show ?thesis by (simp add: iterate_sequence_def)
  next
    case nc: False
    have "?R 0 \<noteq> replicate n 0"
    proof
      assume "?R 0 = replicate n 0"
      from converged_if_zero[OF this t rho] nc show False by simp
    qed
    from cg_orth_0[OF A M b x this] have o: "cg_orth A' M' b x 0" .
    from vw nc have vw0: "exact_view s1 (map Fin x) (exact_iter A' M' b x 0)" by simp
    from iterates_energy[OF A M b x t rho opA rdy vw0 o, of k] i nc
    show ?thesis by (simp add: iterate_sequence_def)
  qed
qed

text \<open>Instances: the identity and the diagonal matrices with positive entries.\<close>

lemma list2: "length u = 2 \<Longrightarrow> \<exists>p q. u = [p, q]"
  by (cases u; cases "tl u") auto

lemma identity_SPD: "SPD_operator n (gsIdentityOp n)"
proof -
  have "real_operator n (gsIdentityOp n) (\<lambda>u. u)"
    by (simp add: real_operator_def gsIdentityOp_def)
  moreover have "spd n (\<lambda>u. u)"
    unfolding spd_def
  proof (intro conjI allI impI)
    fix u :: "real list"
    assume l: "length u = n" and nz: "u \<noteq> replicate n 0"
    from nz l have "rdot u u \<noteq> 0" by (simp add: rdot_self_zero_iff)
    with rdot_self_nonneg[of u] show "0 < rdot u u" by simp
  qed simp_all
  ultimately show ?thesis unfolding SPD_operator_def by blast
qed

lemma diagonal2_SPD:
  assumes "0 < a" and "0 < c"
  shows "SPD_operator 2 (gsMatrixOp [[Fin a, Fin 0], [Fin 0, Fin c]])"
proof -
  let ?A = "\<lambda>u. [a * u ! 0, c * u ! 1] :: real list"
  have "real_operator 2 (gsMatrixOp [[Fin a, Fin 0], [Fin 0, Fin c]]) ?A"
    unfolding real_operator_def
  proof (intro allI impI)
    fix u :: "real list" assume "length u = 2"
    then obtain p q where "u = [p, q]" using list2 by blast
    then show "op_apply (gsMatrixOp [[Fin a, Fin 0], [Fin 0, Fin c]]) (map Fin u) = map Fin (?A u)"
      by (simp add: gsMatrixOp_def vdot_def)
  qed
  moreover have "spd 2 ?A"
    unfolding spd_def
  proof (intro conjI allI impI)
    fix u v :: "real list" assume "length u = 2" "length v = 2"
    then obtain p q p' q' where uv: "u = [p, q]" "v = [p', q']" using list2 by blast
    show "?A (radd u v) = radd (?A u) (?A v)" by (simp add: uv algebra_simps)
    show "rdot (?A u) v = rdot u (?A v)" by (simp add: uv algebra_simps)
  next
    fix k and u :: "real list" assume "length u = 2"
    then obtain p q where u: "u = [p, q]" using list2 by blast
    show "?A (rscale k u) = rscale k (?A u)" by (simp add: u algebra_simps)
  next
    fix u :: "real list" assume "length u = 2" and nz: "u \<noteq> replicate 2 0"
    then obtain p q where u: "u = [p, q]" using list2 by blast
    with nz have "p \<noteq> 0 \<or> q \<noteq> 0" by (auto simp add: numeral_2_eq_2)
    then have "0 < a * (p * p) + c * (q * q)"
      using assms by (metis add_pos_nonneg add_nonneg_pos mult_pos_pos mult_nonneg_nonneg
          less_imp_le zero_le_square not_real_square_gt_zero)
    then show "0 < rdot u (?A u)" by (simp add: u algebra_simps)
  qed simp
  ultimately show ?thesis unfolding SPD_operator_def by blast
qed

section \<open>Convergence and monotonicity of the solver\<close>

text \<open>
  C5, amended. For an SPD operator of dimension \<open>n\<close>, an SPD preconditioner, a finite
  right-hand side and initial guess of that dimension, a positive tolerance and an
  iteration cap of at least \<open>n\<close>, \<open>solve\<close> ends \<open>Converged\<close> after at most \<open>n\<close> iterations,
  in exact arithmetic.
\<close>

theorem cg_converges_within_dimension:
  assumes "SPD_operator n (m_mat s)" and "SPD_operator n (m_precond s)"
    and "length b = n" and "length x = n"
    and "m_tol s = Fin t" and "0 < t" and "n \<le> m_max_iters s"
  shows "\<exists>x' s'. solve (map Fin b) (map Fin x) s = Some (Converged, x', s') \<and> m_num_iter s' \<le> n"
proof -
  from assms(1) obtain A' where opA: "real_operator n (m_mat s) A'" and A: "spd n A'"
    unfolding SPD_operator_def by blast
  from assms(2) obtain M' where opM: "real_operator n (m_precond s) M'" and M: "spd n M'"
    unfolding SPD_operator_def by blast
  show ?thesis by (rule cg_converges[OF opA opM A M assms(3-7)])
qed

lemma demo_SPD:
  "SPD_operator 2 (m_mat (demo_solver tr))" "SPD_operator 2 (m_precond (demo_solver tr))"
  using diagonal2_SPD[of 1 4] identity_SPD[of 2]
  by (simp_all add: demo_solver_def new_solver_def diag14_def)

theorem cg_converges_within_dimension_witness:
  "SPD_operator 2 (m_mat (demo_solver False)) \<and> SPD_operator 2 (m_precond (demo_solver False))
   \<and> m_tol (demo_solver False) = Fin (1 / 10) \<and> 2 \<le> m_max_iters (demo_solver False)
   \<and> (\<exists>x' s'. solve [Fin 3, Fin 4] [Fin 0, Fin 0] (demo_solver False) = Some (Converged, x', s')
         \<and> m_num_iter s' \<le> 2)"
proof -
  have c: "m_tol (demo_solver False) = Fin (1 / 10)" "2 \<le> m_max_iters (demo_solver False)"
    by (simp_all add: demo_solver_def new_solver_def)
  have l: "length [3, 4 :: real] = 2" "length [0, 0 :: real] = 2" by simp_all
  have t: "(0::real) < 1 / 10" by simp
  from cg_converges_within_dimension[OF demo_SPD l c(1) t c(2)] demo_SPD c
  show ?thesis by simp
qed

text \<open>
  C4, amended. For an SPD operator and an SPD preconditioner, a finite right-hand side
  and initial guess and a positive tolerance, the energy \<open>x\<cdot>Ax / 2 - b\<cdot>x\<close> of the iterates
  does not increase from one iterate of the solver to the next, in exact arithmetic.
\<close>

theorem energy_nonincreasing:
  assumes "SPD_operator n (m_mat s)" and "SPD_operator n (m_precond s)"
    and "length b = n" and "length x = n"
    and "m_tol s = Fin t" and "0 < t"
  shows "successively (energy_not_above (m_mat s) (map Fin b))
           (iterate_sequence initIteration step k (map Fin b) (map Fin x) s)"
proof -
  from assms(1) obtain A' where opA: "real_operator n (m_mat s) A'" and A: "spd n A'"
    unfolding SPD_operator_def by blast
  from assms(2) obtain M' where opM: "real_operator n (m_precond s) M'" and M: "spd n M'"
    unfolding SPD_operator_def by blast
  show ?thesis by (rule energy_monotone[OF opA opM A M assms(3-6)])
qed

theorem energy_nonincreasing_witness:
  "SPD_operator 2 (m_mat (demo_solver False)) \<and> SPD_operator 2 (m_precond (demo_solver False))
   \<and> m_tol (demo_solver False) = Fin (1 / 10)
   \<and> successively (energy_not_above (m_mat (demo_solver False)) [Fin 3, Fin 4])
        (iterate_sequence initIteration step 3 [Fin 3, Fin 4] [Fin 0, Fin 0] (demo_solver False))"
proof -
  have c: "m_tol (demo_solver False) = Fin (1 / 10)"
    by (simp add: demo_solver_def new_solver_def)
  have l: "length [3, 4 :: real] = 2" "length [0, 0 :: real] = 2" by simp_all
  have t: "(0::real) < 1 / 10" by simp
  from energy_nonincreasing[OF demo_SPD l c t, of 3] demo_SPD c
  show ?thesis by simp
qed

lemma stiff_SPD:
  "SPD_operator 2 (m_mat stiff_solver)" "SPD_operator 2 (m_precond stiff_solver)"
  using diagonal2_SPD[of 1 100] identity_SPD[of 2]
  by (simp_all add: stiff_solver_def new_solver_def stiff_op_def)

lemma stiff_init:
  "initIteration [Fin 10, Fin 1] [Fin 0, Fin 0] stiff_solver =
     (False, [Fin 0, Fin 0],
      stiff_solver\<lparr>m_rhs_norm := Fin (sqrt 101), m_error := Fin 1, m_res := [Fin 10, Fin 1],
         m_update := [Fin 10, Fin 1], m_tmp := [Fin 0, Fin 0], m_abs_new := Fin 101\<rparr>)"
  by (simp add: stiff_solver_def stiff_op_def new_solver_def gsMatrixOp_def gsIdentityOp_def
      initIteration_def Base_initIteration_def vnorm_def vdot_def vsub_def
      fsub_def feq_def resize_def Let_def)

text \<open>
  C4, as stated, fails: the residual norm of the method can grow. For the operator
  \<open>diag(1, 100)\<close>, the identity preconditioner, the right-hand side \<open>(10, 1)\<close> and the
  initial guess zero, the residual norm is \<open>sqrt 101\<close> after \<open>initIteration\<close> and
  \<open>sqrt (989901 / 400)\<close>, which is larger, after the first step.
\<close>

theorem residual_norm_increases:
  "SPD_operator 2 (m_mat stiff_solver) \<and> SPD_operator 2 (m_precond stiff_solver)
   \<and> vnorm (m_res (after_init [Fin 10, Fin 1] [Fin 0, Fin 0] stiff_solver)) = Fin (sqrt 101)
   \<and> map_option (vnorm \<circ> m_res \<circ> snd \<circ> snd)
        (step [Fin 0, Fin 0] (after_init [Fin 10, Fin 1] [Fin 0, Fin 0] stiff_solver))
       = Some (Fin (sqrt (989901 / 400)))
   \<and> fless (Fin (sqrt 101)) (Fin (sqrt (989901 / 400)))"
proof -
  have "vnorm (m_res (after_init [Fin 10, Fin 1] [Fin 0, Fin 0] stiff_solver)) = Fin (sqrt 101)"
    by (simp add: after_init_def stiff_init vnorm_def vdot_def)
  moreover have "map_option (vnorm \<circ> m_res \<circ> snd \<circ> snd)
        (step [Fin 0, Fin 0] (after_init [Fin 10, Fin 1] [Fin 0, Fin 0] stiff_solver))
       = Some (Fin (sqrt (989901 / 400)))"
    apply (simp add: after_init_def stiff_init)
    apply (simp add: stiff_solver_def stiff_op_def new_solver_def gsMatrixOp_def
          step_def vnorm_def vdot_def vsub_def vadd_def vscale_def fsub_def Let_def)
    apply blast
    done
  moreover have "fless (Fin (sqrt 101)) (Fin (sqrt (989901 / 400)))" by simp
  ultimately show ?thesis using stiff_SPD by simp
qed

lemma sqrt_32400_5329: "sqrt (32400 / 5329) = 180 / 73"
  by (rule real_sqrt_unique) (simp_all add: power2_eq_square)

lemma capped_init:
  "initIteration [Fin 3, Fin 4] [Fin 0, Fin 0] capped_solver =
     (False, [Fin 0, Fin 0],
      capped_solver\<lparr>m_rhs_norm := Fin 5, m_error := Fin 1, m_res := [Fin 3, Fin 4],
         m_update := [Fin 3, Fin 4], m_tmp := [Fin 0, Fin 0], m_abs_new := Fin 25\<rparr>)"
  by (simp add: capped_solver_def diag14_def new_solver_def gsMatrixOp_def gsIdentityOp_def
      initIteration_def Base_initIteration_def vnorm_def vdot_def vsub_def
      fsub_def feq_def resize_def Let_def)

lemma singular_precond_init:
  "initIteration [Fin 0, Fin 1] [Fin 0, Fin 0] singular_precond_solver =
     (False, [Fin 0, Fin 0],
      singular_precond_solver\<lparr>m_rhs_norm := Fin 1, m_error := Fin 1, m_res := [Fin 0, Fin 1],
         m_update := [Fin 0, Fin 0], m_tmp := [Fin 0, Fin 0], m_abs_new := Fin 0\<rparr>)"
  by (simp add: singular_precond_solver_def diag14_def singular_op_def new_solver_def
      gsMatrixOp_def initIteration_def Base_initIteration_def vnorm_def vdot_def vsub_def
      fsub_def feq_def resize_def Let_def)

text \<open>
  C5, as stated, fails. With the SPD operator \<open>diag(1, 4)\<close> of dimension 2 and the
  identity preconditioner, a solver capped at one iteration ends \<open>Exhausted\<close>; and with
  a cap of 2 but a singular preconditioner, the solver ends \<open>Exhausted\<close> as well.
\<close>

theorem exhausted_on_spd_system:
  "SPD_operator 2 (m_mat capped_solver) \<and> SPD_operator 2 (m_precond capped_solver)
   \<and> m_max_iters capped_solver = 1
   \<and> map_option fst (solve [Fin 3, Fin 4] [Fin 0, Fin 0] capped_solver) = Some Exhausted
   \<and> SPD_operator 2 (m_mat singular_precond_solver)
   \<and> m_max_iters singular_precond_solver = 2
   \<and> map_option fst (solve [Fin 0, Fin 1] [Fin 0, Fin 0] singular_precond_solver) = Some Exhausted"
proof -
  have spd: "SPD_operator 2 (m_mat capped_solver)" "SPD_operator 2 (m_precond capped_solver)"
    "SPD_operator 2 (m_mat singular_precond_solver)"
    using diagonal2_SPD[of 1 4] identity_SPD[of 2]
    by (simp_all add: capped_solver_def singular_precond_solver_def new_solver_def diag14_def)
  have z: "capped_solver\<lparr>m_num_iter := 0\<rparr> = capped_solver"
    "singular_precond_solver\<lparr>m_num_iter := 0\<rparr> = singular_precond_solver"
    by (simp_all add: capped_solver_def singular_precond_solver_def new_solver_def)
  have 1: "map_option fst (solve [Fin 3, Fin 4] [Fin 0, Fin 0] capped_solver) = Some Exhausted"
    by (simp add: solve_def z capped_init)
       (simp add: capped_solver_def diag14_def new_solver_def gsMatrixOp_def gsIdentityOp_def
          step_def vnorm_def vdot_def vsub_def vadd_def vscale_def fsub_def Let_def
          sqrt_32400_5329)
  have 2: "map_option fst (solve [Fin 0, Fin 1] [Fin 0, Fin 0] singular_precond_solver)
      = Some Exhausted"
    by (simp add: solve_def z singular_precond_init)
       (simp add: singular_precond_solver_def diag14_def singular_op_def new_solver_def
          gsMatrixOp_def step_def vnorm_def vdot_def vsub_def vadd_def vscale_def fsub_def
          Let_def numeral_2_eq_2)
  have 3: "m_max_iters capped_solver = 1" "m_max_iters singular_precond_solver = 2"
    by (simp_all add: capped_solver_def singular_precond_solver_def new_solver_def)
  from spd 1 2 3 show ?thesis by simp
qed

section \<open>The eigenvalues of the trace\<close>

lemma length_tridiagonal [simp]: "length (tridiagonal z g d) = length d"
  by (simp add: tridiagonal_def)

lemma tridiagonal_row_length: "i < length d \<Longrightarrow> length (tridiagonal z g d ! i) = length d"
  by (simp add: tridiagonal_def)

lemma tridiagonal_entry_sym:
  "i < length d \<Longrightarrow> j < length d \<Longrightarrow> tridiagonal z g d ! i ! j = tridiagonal z g d ! j ! i"
  by (auto simp add: tridiagonal_def)

lemma map_tridiagonal:
  "map (map f) (tridiagonal z g d) = tridiagonal (f z) (map f g) (map f d)"
  by (auto simp add: tridiagonal_def)

lemma length_rmatvec [simp]: "length (rmatvec T v) = length T"
  by (simp add: rmatvec_def)

lemma rmatvec_nth:
  assumes "i < length T" and "length (T ! i) = length v"
  shows "rmatvec T v ! i = (\<Sum>j<length v. T ! i ! j * v ! j)"
  using assms by (simp add: rmatvec_def rdot_nth)

lemma symmetric_form:
  assumes n: "length T = n" and rows: "\<And>i. i < n \<Longrightarrow> length (T ! i) = n"
    and sym: "\<And>i j. i < n \<Longrightarrow> j < n \<Longrightarrow> T ! i ! j = T ! j ! i"
    and u: "length u = n" and v: "length v = n"
  shows "rdot (rmatvec T u) v = rdot u (rmatvec T v)"
proof -
  have "rdot (rmatvec T u) v = (\<Sum>i<n. rmatvec T u ! i * v ! i)"
    using rdot_nth[of "rmatvec T u" v] n v by simp
  also have "\<dots> = (\<Sum>i<n. (\<Sum>j<n. T ! i ! j * u ! j) * v ! i)"
    using rmatvec_nth[of _ T u] n rows u by simp
  also have "\<dots> = (\<Sum>i<n. \<Sum>j<n. T ! i ! j * u ! j * v ! i)"
    by (simp add: sum_distrib_right)
  also have "\<dots> = (\<Sum>j<n. \<Sum>i<n. T ! i ! j * u ! j * v ! i)"
    by (rule sum.swap)
  also have "\<dots> = (\<Sum>j<n. \<Sum>i<n. u ! j * (T ! j ! i * v ! i))"
    by (intro sum.cong refl) (simp add: sym mult_ac)
  also have "\<dots> = (\<Sum>j<n. u ! j * (\<Sum>i<n. T ! j ! i * v ! i))"
    by (simp add: sum_distrib_left)
  also have "\<dots> = (\<Sum>j<n. u ! j * rmatvec T v ! j)"
    using rmatvec_nth[of _ T v] n rows v by simp
  also have "\<dots> = rdot u (rmatvec T v)"
    using rdot_nth[of u "rmatvec T v"] n u by simp
  finally show ?thesis .
qed

lemma tridiagonal_symmetric:
  assumes "length u = length d" and "length v = length d"
  shows "rdot (rmatvec (tridiagonal 0 g d) u) v = rdot u (rmatvec (tridiagonal 0 g d) v)"
  by (rule symmetric_form[OF length_tridiagonal _ _ assms])
     (simp_all add: tridiagonal_row_length tridiagonal_entry_sym)

lemma eigenvectors_orthogonal:
  assumes sym: "rdot (rmatvec T u) v = rdot u (rmatvec T v)"
    and u: "rmatvec T u = rscale l u" and v: "rmatvec T v = rscale m v" and ne: "l \<noteq> m"
  shows "rdot u v = 0"
proof -
  from sym have "l * rdot u v = m * rdot u v"
    unfolding u v by (simp add: rdot_rscale_left rdot_rscale_right)
  then have "(l - m) * rdot u v = 0" by (simp add: algebra_simps)
  with ne show ?thesis by simp
qed

lemma spectrum_bounded:
  assumes n: "length T = n"
    and sym: "\<And>u v. length u = n \<Longrightarrow> length v = n
                \<Longrightarrow> rdot (rmatvec T u) v = rdot u (rmatvec T v)"
  shows "finite (spectrum T) \<and> card (spectrum T) \<le> n"
proof (rule finite_if_finite_subsets_card_bdd)
  fix G assume G: "G \<subseteq> spectrum T" and fin: "finite G"
  show "card G \<le> n"
  proof (rule ccontr)
    assume "\<not> card G \<le> n"
    then have big: "n < card G" by simp
    from G have "\<forall>l\<in>G. \<exists>v. length v = n \<and> v \<noteq> replicate n 0 \<and> rmatvec T v = rscale l v"
      unfolding spectrum_def n by blast
    then obtain f where f: "\<forall>l\<in>G. length (f l) = n \<and> f l \<noteq> replicate n 0
        \<and> rmatvec T (f l) = rscale l (f l)"
      by (rule bchoice[THEN exE])
    from linear_dependence[OF fin big, of "\<lambda>l i. f l ! i"]
    obtain c where cz: "(\<exists>l\<in>G. c l \<noteq> 0) \<and> (\<forall>i<n. (\<Sum>l\<in>G. c l * f l ! i) = 0)" ..
    then obtain m where m: "m \<in> G" and cm: "c m \<noteq> 0" by blast
    from cz have comb: "\<And>i. i < n \<Longrightarrow> (\<Sum>l\<in>G. c l * f l ! i) = 0" by simp
    have tm: "c l * rdot (f l) (f m) = (if l = m then c m * rdot (f m) (f m) else 0)"
      if "l \<in> G" for l
    proof (cases "l = m")
      case True
      then show ?thesis by simp
    next
      case False
      from f that m have "rdot (rmatvec T (f l)) (f m) = rdot (f l) (rmatvec T (f m))"
        by (intro sym) simp_all
      from eigenvectors_orthogonal[OF this _ _ False, of ] f that m
      have "rdot (f l) (f m) = 0" by blast
      with False show ?thesis by simp
    qed
    have "(\<Sum>l\<in>G. c l * rdot (f l) (f m)) = (\<Sum>l\<in>G. if l = m then c m * rdot (f m) (f m) else 0)"
      by (rule sum.cong) (simp_all add: tm)
    also have "\<dots> = c m * rdot (f m) (f m)" using m fin by (simp add: sum.delta)
    finally have lhs: "(\<Sum>l\<in>G. c l * rdot (f l) (f m)) = c m * rdot (f m) (f m)" .
    have "(\<Sum>l\<in>G. c l * rdot (f l) (f m)) = (\<Sum>l\<in>G. c l * (\<Sum>i<n. f l ! i * f m ! i))"
      by (rule sum.cong) (use f m rdot_nth[of "f _" "f m"] in simp_all)
    also have "\<dots> = (\<Sum>l\<in>G. \<Sum>i<n. f m ! i * (c l * f l ! i))"
      by (simp add: sum_distrib_left mult_ac)
    also have "\<dots> = (\<Sum>i<n. \<Sum>l\<in>G. f m ! i * (c l * f l ! i))"
      by (rule sum.swap)
    also have "\<dots> = (\<Sum>i<n. f m ! i * (\<Sum>l\<in>G. c l * f l ! i))"
      by (simp add: sum_distrib_left)
    also have "\<dots> = 0" using comb by simp
    finally have "c m * rdot (f m) (f m) = 0" using lhs by simp
    with cm have "rdot (f m) (f m) = 0" by simp
    then have "f m = replicate n 0" using f m by (simp add: rdot_self_zero_iff)
    with f m show False by blast
  qed
qed

lemma spectrum_tridiagonal_finite:
  "finite (spectrum (tridiagonal 0 g d)) \<and> card (spectrum (tridiagonal 0 g d)) \<le> length d"
  by (rule spectrum_bounded[OF length_tridiagonal]) (rule tridiagonal_symmetric)

lemma lanczos_finite:
  "lanczos_matrixForm (map Fin g) (map Fin d) = map (map Fin) (tridiagonal 0 g d)"
  by (simp add: lanczos_matrixForm_def map_tridiagonal)

lemma self_adjoint_eigenvalues_finite:
  "self_adjoint_eigenvalues (map (map Fin) T) = map Fin (sorted_list_of_set (spectrum T))"
proof -
  have "list_all (list_all is_fin) (map (map Fin) T)"
    by (simp add: list_all_iff)
  moreover have "map (map the_fin) (map (map Fin) T) = T"
    by (simp add: map_idI)
  ultimately show ?thesis by (simp add: self_adjoint_eigenvalues_def)
qed

lemma ascending_Fin: "sorted es \<Longrightarrow> ascending (map Fin es)"
  by (simp add: ascending_def sorted_wrt_map fle_def feq_def flip: le_less)

text \<open>
  C9. \<open>getEigenvalues\<close> returns the empty sequence with one diagnostic when the recorded
  \<open>delta\<close> is empty, and otherwise what the eigensolver returns for the matrix built from
  the recorded trace. For a finite trace with \<open>len(delta) = len(gamma) + 1\<close>, that is the
  full eigenvalue set of the tridiagonal matrix \<open>T\<close> of the trace, in ascending order:
  the elements of the result are exactly the eigenvalues of \<open>T\<close>, there are at most
  \<open>len(delta)\<close> of them, and no diagnostic is written.
\<close>

theorem getEigenvalues_empty_or_spectrum:
  "(m_delta s = [] \<longrightarrow> getEigenvalues matrixForm eigenvalues s = ([eigenvalues_warning], []))
   \<and> (m_delta s \<noteq> [] \<longrightarrow>
        getEigenvalues matrixForm eigenvalues s
          = ([], eigenvalues (matrixForm (m_gamma s) (m_delta s))))
   \<and> (m_gamma s = map Fin g \<and> m_delta s = map Fin d \<and> length d = length g + 1 \<longrightarrow>
        (\<exists>es. getEigenvalues lanczos_matrixForm self_adjoint_eigenvalues s = ([], map Fin es)
            \<and> set es = spectrum (tridiagonal 0 g d)
            \<and> sorted es \<and> distinct es \<and> length es \<le> length d
            \<and> ascending (map Fin es)))"
proof (intro conjI impI)
  assume a: "m_gamma s = map Fin g \<and> m_delta s = map Fin d \<and> length d = length g + 1"
  let ?S = "spectrum (tridiagonal 0 g d)"
  let ?es = "sorted_list_of_set ?S"
  from spectrum_tridiagonal_finite[of g d] have fin: "finite ?S" and card: "card ?S \<le> length d"
    by simp_all
  from a have "d \<noteq> []" by auto
  with a have "getEigenvalues lanczos_matrixForm self_adjoint_eigenvalues s = ([], map Fin ?es)"
    by (simp add: getEigenvalues_def lanczos_finite self_adjoint_eigenvalues_finite)
  moreover have "set ?es = ?S" using fin by simp
  moreover have "sorted ?es" "distinct ?es" by simp_all
  moreover have "length ?es \<le> length d" using card by simp
  moreover have "ascending (map Fin ?es)" by (rule ascending_Fin) simp
  ultimately show "\<exists>es. getEigenvalues lanczos_matrixForm self_adjoint_eigenvalues s = ([], map Fin es)
            \<and> set es = spectrum (tridiagonal 0 g d)
            \<and> sorted es \<and> distinct es \<and> length es \<le> length d
            \<and> ascending (map Fin es)"
    by (intro exI[of _ ?es] conjI)
qed (simp_all add: getEigenvalues_def)

lemma list2': "length u = Suc (Suc 0) \<Longrightarrow> \<exists>p q. u = [p, q]"
  by (cases u; cases "tl u") auto

lemma spectrum_2112: "spectrum (tridiagonal 0 [1] [2, 2]) = {1, 3}"
proof -
  have T: "tridiagonal (0::real) [1] [2, 2] = [[2, 1], [1, 2]]"
    by (simp add: tridiagonal_def)
  show ?thesis
  proof (intro set_eqI iffI)
    fix l :: real assume "l \<in> spectrum (tridiagonal 0 [1] [2, 2])"
    then obtain v where v: "length v = Suc (Suc 0)" "v \<noteq> [0, 0]" "rmatvec [[2, 1], [1, 2]] v = rscale l v"
      unfolding spectrum_def T by auto
    from list2'[OF v(1)] obtain p q where pq: "v = [p, q]" by blast
    from v(3) have e: "2 * p + q = l * p" "p + 2 * q = l * q"
      by (simp_all add: pq rmatvec_def)
    from e have s: "(l - 3) * (p + q) = 0" and t: "(l - 1) * (p - q) = 0"
      by (simp_all add: algebra_simps)
    from v(2) pq have "p + q \<noteq> 0 \<or> p - q \<noteq> 0" by auto
    with s t have "l = 3 \<or> l = 1" by auto
    then show "l \<in> {1, 3}" by auto
  next
    fix l :: real assume "l \<in> {1, 3}"
    then consider "l = 1" | "l = 3" by auto
    then show "l \<in> spectrum (tridiagonal 0 [1] [2, 2])"
    proof cases
      case 1
      have "length [1, - 1 :: real] = length [[2, 1], [1, 2 :: real]]
          \<and> [1, - 1 :: real] \<noteq> replicate (length [[2, 1], [1, 2 :: real]]) 0
          \<and> rmatvec [[2, 1], [1, 2]] [1, - 1] = rscale 1 [1, - 1]"
        by (simp add: rmatvec_def)
      then show ?thesis unfolding spectrum_def T 1 by blast
    next
      case 2
      have "length [1, 1 :: real] = length [[2, 1], [1, 2 :: real]]
          \<and> [1, 1 :: real] \<noteq> replicate (length [[2, 1], [1, 2 :: real]]) 0
          \<and> rmatvec [[2, 1], [1, 2]] [1, 1] = rscale 3 [1, 1]"
        by (simp add: rmatvec_def)
      then show ?thesis unfolding spectrum_def T 2 by blast
    qed
  qed
qed

theorem getEigenvalues_empty_or_spectrum_witness:
  "m_delta (demo_solver False) = []
   \<and> getEigenvalues lanczos_matrixForm self_adjoint_eigenvalues (demo_solver False)
       = ([eigenvalues_warning], [])
   \<and> m_gamma ((demo_solver True)\<lparr>m_gamma := [Fin 1], m_delta := [Fin 2, Fin 2]\<rparr>) = map Fin [1]
   \<and> m_delta ((demo_solver True)\<lparr>m_gamma := [Fin 1], m_delta := [Fin 2, Fin 2]\<rparr>) = map Fin [2, 2]
   \<and> m_delta ((demo_solver True)\<lparr>m_gamma := [Fin 1], m_delta := [Fin 2, Fin 2]\<rparr>) \<noteq> []
   \<and> length [2, 2 :: real] = length [1 :: real] + 1
   \<and> getEigenvalues lanczos_matrixForm self_adjoint_eigenvalues
        ((demo_solver True)\<lparr>m_gamma := [Fin 1], m_delta := [Fin 2, Fin 2]\<rparr>)
       = ([], self_adjoint_eigenvalues (lanczos_matrixForm [Fin 1] [Fin 2, Fin 2]))
   \<and> getEigenvalues lanczos_matrixForm self_adjoint_eigenvalues
        ((demo_solver True)\<lparr>m_gamma := [Fin 1], m_delta := [Fin 2, Fin 2]\<rparr>)
       = ([], [Fin 1, Fin 3])"
proof -
  let ?s = "(demo_solver True)\<lparr>m_gamma := [Fin 1], m_delta := [Fin 2, Fin 2]\<rparr>"
  note e = getEigenvalues_empty_or_spectrum[where s = "demo_solver False"
      and matrixForm = lanczos_matrixForm and eigenvalues = self_adjoint_eigenvalues]
  note t = getEigenvalues_empty_or_spectrum[where s = ?s and g = "[1]" and d = "[2, 2]"
      and matrixForm = lanczos_matrixForm and eigenvalues = self_adjoint_eigenvalues]
  have d0: "m_delta (demo_solver False) = []" by (simp add: demo_solver_def new_solver_def)
  have h: "m_gamma ?s = map Fin [1]" "m_delta ?s = map Fin [2, 2]" "m_delta ?s \<noteq> []"
    by simp_all
  have "\<exists>es. getEigenvalues lanczos_matrixForm self_adjoint_eigenvalues ?s = ([], map Fin es)
            \<and> set es = spectrum (tridiagonal 0 [1] [2, 2])
            \<and> sorted es \<and> distinct es \<and> length es \<le> length [2, 2 :: real]
            \<and> ascending (map Fin es)"
    by (rule t[THEN conjunct2, THEN conjunct2, THEN mp]) simp
  then obtain es where r: "getEigenvalues lanczos_matrixForm self_adjoint_eigenvalues ?s
        = ([], map Fin es)"
    and es: "set es = spectrum (tridiagonal 0 [1] [2, 2])" "sorted es" "distinct es"
    by (elim exE conjE)
  have "es = [1, 3]"
    by (rule sorted_distinct_set_unique[OF es(2,3)]) (simp_all add: es(1) spectrum_2112)
  with r have 1: "getEigenvalues lanczos_matrixForm self_adjoint_eigenvalues ?s = ([], [Fin 1, Fin 3])"
    by simp
  from t[THEN conjunct2, THEN conjunct1] h(3)
  have 2: "getEigenvalues lanczos_matrixForm self_adjoint_eigenvalues ?s
       = ([], self_adjoint_eigenvalues (lanczos_matrixForm [Fin 1] [Fin 2, Fin 2]))"
    by simp
  from e[THEN conjunct1] d0 have 3: "getEigenvalues lanczos_matrixForm self_adjoint_eigenvalues (demo_solver False)
       = ([eigenvalues_warning], [])" by simp
  have l: "length [2, 2 :: real] = length [1 :: real] + 1" by simp
  from d0 3 h l 2 1 show ?thesis by (intro conjI)
qed

end
